theory Spec2Isabelle
  imports Complex_Main
begin

section \<open>JavaScript numbers\<close>

text \<open>
  The component computes with JavaScript numbers, which are IEEE 754 doubles. A number
  is one of the three special values \<open>NaN\<close>, \<open>-Infinity\<close>, \<open>+Infinity\<close>, or a finite
  double, carried as the real number it denotes. The result of an arithmetic operation
  on finite numbers is the exact result rounded to the nearest double, a tie going to the
  even significand, with gradual underflow and with overflow to an infinity. The special
  values follow ECMAScript (division by zero, \<open>0/0\<close>, \<open>Infinity - Infinity\<close>, \<open>NaN\<close>
  propagation through \<open>Math.max\<close>, \<open>Math.min\<close> and \<open>Math.round\<close>). One thing is
  abstracted: zero is unsigned (it divides like \<open>+0\<close>).
\<close>

datatype number = NaN | NegInf | Fin real | PosInf

subsection \<open>Rounding to a double\<close>

text \<open>
  The binade of a magnitude \<open>a\<close> is the exponent \<open>e\<close> with \<open>2^e \<le> a < 2^(e+1)\<close>, kept
  between the least normal exponent \<open>-1022\<close> (which also serves the subnormal numbers)
  and the greatest exponent \<open>1023\<close>. It is found by counting up from \<open>-1022\<close>.
\<close>

fun binade_from :: "nat \<Rightarrow> int \<Rightarrow> real \<Rightarrow> int" where
  "binade_from 0 e a = e"
| "binade_from (Suc n) e a = (if 2 powi (e + 1) \<le> a then binade_from n (e + 1) a else e)"

definition binade :: "real \<Rightarrow> int" where
  "binade x = binade_from 2045 (- 1022) \<bar>x\<bar>"

text \<open>The spacing of the doubles around \<open>x\<close>: 53 significant bits, so \<open>2^(e - 52)\<close>.\<close>

definition quantum :: "real \<Rightarrow> real" where
  "quantum x = 2 powi (binade x - 52)"

definition round_half_even :: "real \<Rightarrow> int" where
  "round_half_even y =
     (let f = \<lfloor>y\<rfloor>; d = y - of_int f
      in if d < 1 / 2 then f else if 1 / 2 < d then f + 1 else if even f then f else f + 1)"

definition nearest :: "real \<Rightarrow> real" where
  "nearest x = of_int (round_half_even (x / quantum x)) * quantum x"

text \<open>The double of a real: the nearest multiple of the spacing, or an infinity from \<open>2^1024\<close> on.\<close>

definition double_of :: "real \<Rightarrow> number" where
  "double_of x =
     (let r = nearest x
      in if 2 ^ 1024 \<le> r then PosInf else if r \<le> - (2 ^ 1024) then NegInf else Fin r)"

text \<open>A real is a double when rounding leaves it as it is.\<close>

definition is_double :: "real \<Rightarrow> bool" where
  "is_double x = (double_of x = Fin x)"

subsection \<open>Arithmetic\<close>

fun num_neg :: "number \<Rightarrow> number" where
  "num_neg NaN = NaN"
| "num_neg NegInf = PosInf"
| "num_neg PosInf = NegInf"
| "num_neg (Fin a) = Fin (- a)"

fun num_add :: "number \<Rightarrow> number \<Rightarrow> number" where
  "num_add NaN b = NaN"
| "num_add a NaN = NaN"
| "num_add PosInf NegInf = NaN"
| "num_add NegInf PosInf = NaN"
| "num_add PosInf b = PosInf"
| "num_add a PosInf = PosInf"
| "num_add NegInf b = NegInf"
| "num_add a NegInf = NegInf"
| "num_add (Fin a) (Fin b) = double_of (a + b)"

definition num_sub :: "number \<Rightarrow> number \<Rightarrow> number" where
  "num_sub a b = num_add a (num_neg b)"

text \<open>The sign of an infinite product or quotient: positive when both signs agree.\<close>

definition signed_inf :: "bool \<Rightarrow> number" where
  "signed_inf positive = (if positive then PosInf else NegInf)"

fun num_mul :: "number \<Rightarrow> number \<Rightarrow> number" where
  "num_mul NaN b = NaN"
| "num_mul a NaN = NaN"
| "num_mul PosInf PosInf = PosInf"
| "num_mul PosInf NegInf = NegInf"
| "num_mul NegInf PosInf = NegInf"
| "num_mul NegInf NegInf = PosInf"
| "num_mul PosInf (Fin b) = (if b = 0 then NaN else signed_inf (0 < b))"
| "num_mul NegInf (Fin b) = (if b = 0 then NaN else signed_inf (b < 0))"
| "num_mul (Fin a) PosInf = (if a = 0 then NaN else signed_inf (0 < a))"
| "num_mul (Fin a) NegInf = (if a = 0 then NaN else signed_inf (a < 0))"
| "num_mul (Fin a) (Fin b) = double_of (a * b)"

fun num_div :: "number \<Rightarrow> number \<Rightarrow> number" where
  "num_div NaN b = NaN"
| "num_div a NaN = NaN"
| "num_div PosInf PosInf = NaN"
| "num_div PosInf NegInf = NaN"
| "num_div NegInf PosInf = NaN"
| "num_div NegInf NegInf = NaN"
| "num_div PosInf (Fin b) = signed_inf (0 \<le> b)"
| "num_div NegInf (Fin b) = signed_inf (b < 0)"
| "num_div (Fin a) PosInf = Fin 0"
| "num_div (Fin a) NegInf = Fin 0"
| "num_div (Fin a) (Fin b) =
     (if b = 0 then (if a = 0 then NaN else signed_inf (0 < a)) else double_of (a / b))"

text \<open>The relational operators \<open><\<close> and \<open><=\<close>: false as soon as one side is \<open>NaN\<close>.\<close>

fun num_lt :: "number \<Rightarrow> number \<Rightarrow> bool" where
  "num_lt NaN b = False"
| "num_lt a NaN = False"
| "num_lt a NegInf = False"
| "num_lt NegInf b = True"
| "num_lt PosInf b = False"
| "num_lt a PosInf = True"
| "num_lt (Fin a) (Fin b) = (a < b)"

fun num_le :: "number \<Rightarrow> number \<Rightarrow> bool" where
  "num_le NaN b = False"
| "num_le a NaN = False"
| "num_le NegInf b = True"
| "num_le a PosInf = True"
| "num_le a NegInf = False"
| "num_le PosInf b = False"
| "num_le (Fin a) (Fin b) = (a \<le> b)"

definition num_gt :: "number \<Rightarrow> number \<Rightarrow> bool" where
  "num_gt a b = num_lt b a"

fun Math_max :: "number \<Rightarrow> number \<Rightarrow> number" where
  "Math_max NaN b = NaN"
| "Math_max a NaN = NaN"
| "Math_max a b = (if num_lt a b then b else a)"

fun Math_min :: "number \<Rightarrow> number \<Rightarrow> number" where
  "Math_min NaN b = NaN"
| "Math_min a NaN = NaN"
| "Math_min a b = (if num_lt b a then b else a)"

text \<open>
  \<open>Math.round\<close>: the nearest integer, a tie going towards \<open>+Infinity\<close>. The result is
  exact: the nearest integer of a double is a double.
\<close>

fun Math_round :: "number \<Rightarrow> number" where
  "Math_round (Fin a) = Fin (of_int \<lfloor>a + 1 / 2\<rfloor>)"
| "Math_round a = a"

fun is_finite :: "number \<Rightarrow> bool" where
  "is_finite (Fin a) = True"
| "is_finite a = False"

section \<open>Coordinate transform\<close>

text \<open>
  The four conversions of the fixed-cell grid. \<open>pixelToGridX\<close> and \<open>pixelToGridW\<close>
  close over \<open>columns\<close> and \<open>cellWidth\<close>, the other two over \<open>cellHeight\<close>; the closed-over
  values are the leading arguments here.
\<close>

definition pixelToGridX :: "number \<Rightarrow> number \<Rightarrow> number \<Rightarrow> number" where
  "pixelToGridX cols cellW pixelX =
     Math_max (Fin 0) (Math_min (num_sub cols (Fin 1)) (Math_round (num_div pixelX cellW)))"

definition pixelToGridY :: "number \<Rightarrow> number \<Rightarrow> number" where
  "pixelToGridY cellH pixelY = Math_max (Fin 0) (Math_round (num_div pixelY cellH))"

definition pixelToGridW :: "number \<Rightarrow> number \<Rightarrow> number" where
  "pixelToGridW cellW pixelW = Math_max (Fin 1) (Math_round (num_div pixelW cellW))"

definition pixelToGridH :: "number \<Rightarrow> number \<Rightarrow> number" where
  "pixelToGridH cellH pixelH = Math_max (Fin 1) (Math_round (num_div pixelH cellH))"

section \<open>Data model\<close>

text \<open>
  \<open>GridItem\<close> and \<open>LayoutState\<close> are the store's types; the fields of a grid item carry
  the prefix \<open>item_\<close>. A \<open>DOMRect\<close> keeps the three fields the handlers read, a mouse
  event its button and client coordinates.
\<close>

record GridItem =
  item_id :: string
  item_x :: number
  item_y :: number
  item_w :: number
  item_h :: number

record LayoutState =
  items :: "GridItem list"
  columns :: number

record DOMRect =
  rect_left :: number
  rect_top :: number
  rect_width :: number

record MouseEvent =
  button :: int
  clientX :: number
  clientY :: number

text \<open>The actions handed to \<open>store.dispatch\<close>: \<open>move\<close> with id, x, y and \<open>resize\<close> with id, w, h.\<close>

datatype action = Move string number number | Resize string number number

text \<open>The two pieces of component state, each \<open>null\<close> (\<open>None\<close>) outside its gesture.\<close>

record DragState =
  drag_id :: string
  startX :: number
  startY :: number
  gridX :: number
  gridY :: number

record ResizeState =
  resize_id :: string
  startW :: number
  startH :: number
  startPixelX :: number
  startPixelY :: number

record Gesture =
  drag :: "DragState option"
  resize :: "ResizeState option"

text \<open>The props the handlers read; \<open>columnsProp\<close> exists in the fluid grid only.\<close>

record Props =
  cellWidth :: number
  cellHeight :: number
  columnsProp :: "number option"
  draggable :: bool
  resizable :: bool

text \<open>
  What a handler sees when it runs: the element behind \<open>containerRef\<close> (\<open>None\<close> while the
  ref is \<open>null\<close>), as its bounding rectangle, and the snapshot of the latest render.
\<close>

record View =
  containerRef :: "DOMRect option"
  snapshot :: LayoutState

section \<open>Handlers of the fluid grid\<close>

text \<open>\<open>columnsProp ?? columnsFromStore\<close>\<close>

definition effective_columns :: "Props \<Rightarrow> LayoutState \<Rightarrow> number" where
  "effective_columns p s = (case columnsProp p of None \<Rightarrow> columns s | Some c \<Rightarrow> c)"

definition getCellWidthFromRect :: "number \<Rightarrow> number \<Rightarrow> DOMRect \<Rightarrow> number" where
  "getCellWidthFromRect cols cellW rect =
     (if num_gt cols (Fin 0) then num_div (rect_width rect) cols else cellW)"

text \<open>\<open>items.find((i) => i.id === id)\<close>: the first item with that id.\<close>

definition find_item :: "GridItem list \<Rightarrow> string \<Rightarrow> GridItem option" where
  "find_item its i = find (\<lambda>it. item_id it = i) its"

text \<open>
  \<open>handleMove\<close> only replaces the preview position of the drag state; it returns the new
  value of \<open>drag\<close>. The closed-over \<open>drag\<close> and the \<open>prev\<close> of the state updater are the
  same value: the component has rendered between two events.
\<close>

definition handleMove :: "Props \<Rightarrow> View \<Rightarrow> MouseEvent \<Rightarrow> DragState option \<Rightarrow> DragState option" where
  "handleMove p v e d =
     (case d of
        None \<Rightarrow> None
      | Some prev \<Rightarrow>
          (case containerRef v of
             None \<Rightarrow> Some prev
           | Some rect \<Rightarrow>
               (let cols = effective_columns p (snapshot v);
                    cw = getCellWidthFromRect cols (cellWidth p) rect;
                    pixelX = num_sub (clientX e) (rect_left rect);
                    pixelY = num_sub (clientY e) (rect_top rect);
                    gx = Math_max (Fin 0)
                           (Math_min (num_sub cols (Fin 1)) (Math_round (num_div pixelX cw)));
                    gy = pixelToGridY (cellHeight p) pixelY
                in Some (prev\<lparr>gridX := gx, gridY := gy\<rparr>))))"

text \<open>\<open>handleMoveEnd\<close> returns what it dispatches and the new value of \<open>drag\<close>.\<close>

definition handleMoveEnd :: "DragState option \<Rightarrow> action list \<times> DragState option" where
  "handleMoveEnd d =
     (case d of
        None \<Rightarrow> ([], None)
      | Some dr \<Rightarrow> ([Move (drag_id dr) (gridX dr) (gridY dr)], None))"

text \<open>\<open>handleResize\<close> sets no state; it returns what it dispatches.\<close>

definition handleResize :: "Props \<Rightarrow> View \<Rightarrow> MouseEvent \<Rightarrow> ResizeState option \<Rightarrow> action list" where
  "handleResize p v e r =
     (case r of
        None \<Rightarrow> []
      | Some rs \<Rightarrow>
          (case containerRef v of
             None \<Rightarrow> []
           | Some rect \<Rightarrow>
               (let cols = effective_columns p (snapshot v);
                    cw = getCellWidthFromRect cols (cellWidth p) rect;
                    pixelX = num_sub (clientX e) (rect_left rect);
                    pixelY = num_sub (clientY e) (rect_top rect)
                in case find_item (items (snapshot v)) (resize_id rs) of
                     None \<Rightarrow> []
                   | Some item \<Rightarrow>
                       (let baseLeft = num_mul (item_x item) cw;
                            baseTop = num_mul (item_y item) (cellHeight p);
                            pixelW = Math_max cw (num_sub pixelX baseLeft);
                            pixelH = Math_max (cellHeight p) (num_sub pixelY baseTop);
                            w = Math_min (num_sub cols (item_x item))
                                  (Math_max (Fin 1) (Math_round (num_div pixelW cw)));
                            h = pixelToGridH (cellHeight p) pixelH
                        in [Resize (resize_id rs) w h]))))"

definition handleResizeEnd :: "ResizeState option" where
  "handleResizeEnd = None"

definition onPanelMouseDown :: "Props \<Rightarrow> MouseEvent \<Rightarrow> GridItem \<Rightarrow> DragState option \<Rightarrow> DragState option" where
  "onPanelMouseDown p e item d =
     (if \<not> draggable p \<or> button e \<noteq> 0 then d
      else Some \<lparr>drag_id = item_id item, startX = clientX e, startY = clientY e,
                 gridX = item_x item, gridY = item_y item\<rparr>)"

definition onResizeHandleMouseDown ::
  "Props \<Rightarrow> MouseEvent \<Rightarrow> GridItem \<Rightarrow> ResizeState option \<Rightarrow> ResizeState option" where
  "onResizeHandleMouseDown p e item r =
     (if \<not> resizable p \<or> button e \<noteq> 0 then r
      else Some \<lparr>resize_id = item_id item, startW = item_w item, startH = item_h item,
                 startPixelX = clientX e, startPixelY = clientY e\<rparr>)"

section \<open>Handlers of the fixed grid\<close>

text \<open>
  The fixed grid takes \<open>columns\<close> from the store and the cell width from the prop; its
  \<open>handleMoveEnd\<close>, \<open>handleResizeEnd\<close> and pointer-down handlers are those above.
\<close>

definition handleMove_fixed ::
  "Props \<Rightarrow> View \<Rightarrow> MouseEvent \<Rightarrow> DragState option \<Rightarrow> DragState option" where
  "handleMove_fixed p v e d =
     (case d of
        None \<Rightarrow> None
      | Some prev \<Rightarrow>
          (case containerRef v of
             None \<Rightarrow> Some prev
           | Some rect \<Rightarrow>
               (let pixelX = num_sub (clientX e) (rect_left rect);
                    pixelY = num_sub (clientY e) (rect_top rect);
                    gx = pixelToGridX (columns (snapshot v)) (cellWidth p) pixelX;
                    gy = pixelToGridY (cellHeight p) pixelY
                in Some (prev\<lparr>gridX := gx, gridY := gy\<rparr>))))"

definition handleResize_fixed ::
  "Props \<Rightarrow> View \<Rightarrow> MouseEvent \<Rightarrow> ResizeState option \<Rightarrow> action list" where
  "handleResize_fixed p v e r =
     (case r of
        None \<Rightarrow> []
      | Some rs \<Rightarrow>
          (case containerRef v of
             None \<Rightarrow> []
           | Some rect \<Rightarrow>
               (let pixelX = num_sub (clientX e) (rect_left rect);
                    pixelY = num_sub (clientY e) (rect_top rect)
                in case find_item (items (snapshot v)) (resize_id rs) of
                     None \<Rightarrow> []
                   | Some item \<Rightarrow>
                       (let baseLeft = num_mul (item_x item) (cellWidth p);
                            baseTop = num_mul (item_y item) (cellHeight p);
                            pixelW = Math_max (cellWidth p) (num_sub pixelX baseLeft);
                            pixelH = Math_max (cellHeight p) (num_sub pixelY baseTop);
                            w = Math_min (num_sub (columns (snapshot v)) (item_x item))
                                  (pixelToGridW (cellWidth p) pixelW);
                            h = pixelToGridH (cellHeight p) pixelH
                        in [Resize (resize_id rs) w h]))))"

section \<open>The gesture machine\<close>

text \<open>
  The events the component reacts to. The two pointer-down events come from a panel and
  from its resize handle (which stops propagation, so the panel's handler does not run);
  \<open>MouseMove\<close> and \<open>MouseUp\<close> arrive at the window, where the effect of a gesture has
  its listeners attached exactly while that gesture's state is not \<open>null\<close>. Every event
  comes with the view at that moment. The flag chooses the fluid grid (\<open>True\<close>) or the
  fixed one.
\<close>

datatype event =
    PanelMouseDown MouseEvent GridItem
  | ResizeHandleMouseDown MouseEvent GridItem
  | MouseMove MouseEvent
  | MouseUp

fun step :: "bool \<Rightarrow> Props \<Rightarrow> Gesture \<Rightarrow> View \<times> event \<Rightarrow> Gesture \<times> action list" where
  "step fluid p g (v, PanelMouseDown e item) =
     (g\<lparr>drag := onPanelMouseDown p e item (drag g)\<rparr>, [])"
| "step fluid p g (v, ResizeHandleMouseDown e item) =
     (g\<lparr>resize := onResizeHandleMouseDown p e item (resize g)\<rparr>, [])"
| "step fluid p g (v, MouseMove e) =
     (if fluid
      then (g\<lparr>drag := handleMove p v e (drag g)\<rparr>, handleResize p v e (resize g))
      else (g\<lparr>drag := handleMove_fixed p v e (drag g)\<rparr>, handleResize_fixed p v e (resize g)))"
| "step fluid p g (v, MouseUp) =
     (case handleMoveEnd (drag g) of
        (acts, d) \<Rightarrow>
          (\<lparr>drag = d, resize = (case resize g of None \<Rightarrow> None | Some r \<Rightarrow> handleResizeEnd)\<rparr>,
           acts))"

text \<open>A run threads the state through the events and collects the dispatches in order.\<close>

fun run :: "bool \<Rightarrow> Props \<Rightarrow> Gesture \<Rightarrow> (View \<times> event) list \<Rightarrow> Gesture \<times> action list" where
  "run fluid p g [] = (g, [])"
| "run fluid p g (x # xs) =
     (case step fluid p g x of
        (g1, a1) \<Rightarrow> (case run fluid p g1 xs of (g2, a2) \<Rightarrow> (g2, a1 @ a2)))"

definition idle :: Gesture where
  "idle = \<lparr>drag = None, resize = None\<rparr>"

text \<open>Event kinds, for speaking about the events of one gesture.\<close>

fun is_move :: "event \<Rightarrow> bool" where
  "is_move (MouseMove e) = True"
| "is_move ev = False"

fun is_window_event :: "event \<Rightarrow> bool" where
  "is_window_event (MouseMove e) = True"
| "is_window_event MouseUp = True"
| "is_window_event ev = False"

text \<open>
  The column count and the cell width a tick works with: the fluid grid takes the
  \<open>columns\<close> prop before the store's count and measures the container, the fixed grid
  takes the store's count and the \<open>cellWidth\<close> prop.
\<close>

definition tick_columns :: "bool \<Rightarrow> Props \<Rightarrow> View \<Rightarrow> number" where
  "tick_columns fluid p v =
     (if fluid then effective_columns p (snapshot v) else columns (snapshot v))"

definition tick_cell_width :: "bool \<Rightarrow> Props \<Rightarrow> View \<Rightarrow> DOMRect \<Rightarrow> number" where
  "tick_cell_width fluid p v rect =
     (if fluid then getCellWidthFromRect (effective_columns p (snapshot v)) (cellWidth p) rect
      else cellWidth p)"

text \<open>
  The size a resize tick asks for, following the description of the transition
  \<open>Resizing \<rightarrow> Resizing\<close>: the footprint from the item's fixed top-left corner to the
  pointer, at least one cell wide and high, converted to grid units, the width clamped so
  that the item ends inside the grid.
\<close>

definition resize_width :: "number \<Rightarrow> number \<Rightarrow> number \<Rightarrow> number \<Rightarrow> number" where
  "resize_width cols cw x pixelX =
     Math_min (num_sub cols x)
       (pixelToGridW cw (Math_max cw (num_sub pixelX (num_mul x cw))))"

definition resize_height :: "number \<Rightarrow> number \<Rightarrow> number \<Rightarrow> number" where
  "resize_height ch y pixelY =
     pixelToGridH ch (Math_max ch (num_sub pixelY (num_mul y ch)))"

text \<open>
  The preview of a drag as the specification describes the transition
  \<open>Dragging \<rightarrow> Dragging\<close>: each pointer-move recomputes the preview grid position from
  the pointer's pixel position relative to the container's bounding box of that tick,
  through \<open>pixelToGridX\<close> and \<open>pixelToGridY\<close>; a tick against an unmounted container is
  skipped and keeps the preview.
\<close>

fun preview_after ::
  "bool \<Rightarrow> Props \<Rightarrow> number \<times> number \<Rightarrow> (View \<times> event) list \<Rightarrow> number \<times> number" where
  "preview_after fluid p pos [] = pos"
| "preview_after fluid p pos ((v, MouseMove e) # ms) =
     preview_after fluid p
       (case containerRef v of
          None \<Rightarrow> pos
        | Some rect \<Rightarrow>
            (pixelToGridX (tick_columns fluid p v) (tick_cell_width fluid p v rect)
               (num_sub (clientX e) (rect_left rect)),
             pixelToGridY (cellHeight p) (num_sub (clientY e) (rect_top rect))))
       ms"
| "preview_after fluid p pos (x # ms) = preview_after fluid p pos ms"

section \<open>State synchronisation\<close>

text \<open>
  \<open>useLayoutState\<close> is a hook over one state cell and one effect with the dependency
  \<open>[store]\<close>. A store is known by its reference, and \<open>getState\<close> gives the current state
  of each store. The instance of the hook remembers the state cell and the store its
  effect last ran for, to which it is subscribed. One pass of the hook is a render, which
  returns the state cell, followed by the effects of that render: when the store differs
  from the one of the last run, the old subscription is cleaned up and the effect body
  runs. The first pass initialises the cell with \<open>store.getState()\<close>.
\<close>

type_synonym store_ref = nat

record Hook =
  hook_state :: LayoutState
  hook_store :: store_ref

text \<open>The hook of \<open>src/useLayoutState.ts\<close>: its effect begins with \<open>setState(store.getState())\<close>.\<close>

fun useLayoutState ::
  "(store_ref \<Rightarrow> LayoutState) \<Rightarrow> store_ref \<Rightarrow> Hook option \<Rightarrow> LayoutState \<times> Hook option" where
  "useLayoutState getState store None =
     (getState store, Some \<lparr>hook_state = getState store, hook_store = store\<rparr>)"
| "useLayoutState getState store (Some hk) =
     (hook_state hk,
      if hook_store hk = store then Some hk
      else Some \<lparr>hook_state = getState store, hook_store = store\<rparr>)"

text \<open>The hook of the second source file: its effect only subscribes.\<close>

fun useLayoutState_part000 ::
  "(store_ref \<Rightarrow> LayoutState) \<Rightarrow> store_ref \<Rightarrow> Hook option \<Rightarrow> LayoutState \<times> Hook option" where
  "useLayoutState_part000 getState store None =
     (getState store, Some \<lparr>hook_state = getState store, hook_store = store\<rparr>)"
| "useLayoutState_part000 getState store (Some hk) =
     (hook_state hk,
      if hook_store hk = store then Some hk
      else Some (hk\<lparr>hook_store := store\<rparr>))"

text \<open>A store notifies its listeners: the subscribed listener is \<open>() => setState(store.getState())\<close>.\<close>

definition notify :: "(store_ref \<Rightarrow> LayoutState) \<Rightarrow> store_ref \<Rightarrow> Hook \<Rightarrow> Hook" where
  "notify getState store hk =
     (if hook_store hk = store then hk\<lparr>hook_state := getState store\<rparr> else hk)"

section \<open>Example inputs\<close>

text \<open>
  Scenario B of the specification: an item at \<open>(0,0)\<close> of size \<open>2 \<times> 2\<close> in a grid of four
  columns with cells of \<open>100 \<times> 100\<close> pixels, the pointer at pixel \<open>(250,250)\<close> of a
  container at the origin, 400 pixels wide.
\<close>

definition ex_item :: GridItem where
  "ex_item = \<lparr>item_id = ''a'', item_x = Fin 0, item_y = Fin 0, item_w = Fin 2, item_h = Fin 2\<rparr>"

definition ex_props :: Props where
  "ex_props = \<lparr>cellWidth = Fin 100, cellHeight = Fin 100, columnsProp = None,
                draggable = True, resizable = True\<rparr>"

definition ex_state :: LayoutState where
  "ex_state = \<lparr>items = [ex_item], columns = Fin 4\<rparr>"

definition ex_rect :: DOMRect where
  "ex_rect = \<lparr>rect_left = Fin 0, rect_top = Fin 0, rect_width = Fin 400\<rparr>"

definition ex_view :: View where
  "ex_view = \<lparr>containerRef = Some ex_rect, snapshot = ex_state\<rparr>"

definition ex_pointer :: MouseEvent where
  "ex_pointer = \<lparr>button = 0, clientX = Fin 250, clientY = Fin 250\<rparr>"

definition ex_resize :: ResizeState where
  "ex_resize = \<lparr>resize_id = ''a'', startW = Fin 2, startH = Fin 2,
                 startPixelX = Fin 200, startPixelY = Fin 200\<rparr>"

definition ex_resizing :: Gesture where
  "ex_resizing = \<lparr>drag = None, resize = Some ex_resize\<rparr>"

text \<open>The same view before the container is mounted, and after the item has been removed.\<close>

definition ex_view_unmounted :: View where
  "ex_view_unmounted = \<lparr>containerRef = None, snapshot = ex_state\<rparr>"

definition ex_view_removed :: View where
  "ex_view_removed = \<lparr>containerRef = Some ex_rect, snapshot = \<lparr>items = [], columns = Fin 4\<rparr>\<rparr>"

text \<open>A container that is mounted but has no width, with the pointer on its corner.\<close>

definition ex_view_collapsed :: View where
  "ex_view_collapsed =
     \<lparr>containerRef = Some \<lparr>rect_left = Fin 0, rect_top = Fin 0, rect_width = Fin 0\<rparr>,
      snapshot = ex_state\<rparr>"

definition ex_pointer_corner :: MouseEvent where
  "ex_pointer_corner = \<lparr>button = 0, clientX = Fin 0, clientY = Fin 0\<rparr>"

text \<open>A configuration with a cell height of zero, with the pointer on the top edge.\<close>

definition ex_props_flat :: Props where
  "ex_props_flat = \<lparr>cellWidth = Fin 100, cellHeight = Fin 0, columnsProp = None,
                     draggable = True, resizable = True\<rparr>"

definition ex_pointer_top :: MouseEvent where
  "ex_pointer_top = \<lparr>button = 0, clientX = Fin 250, clientY = Fin 0\<rparr>"

text \<open>
  Scenario A of the specification: an item at \<open>(2,1)\<close>, the pointer moved to pixel
  \<open>(400,300)\<close>, which is grid position \<open>(4,3)\<close> in a grid of six columns of 100 pixels.
\<close>

definition ex_item_A :: GridItem where
  "ex_item_A = \<lparr>item_id = ''b'', item_x = Fin 2, item_y = Fin 1, item_w = Fin 1, item_h = Fin 1\<rparr>"

definition ex_view_A :: View where
  "ex_view_A =
     \<lparr>containerRef = Some \<lparr>rect_left = Fin 0, rect_top = Fin 0, rect_width = Fin 600\<rparr>,
      snapshot = \<lparr>items = [ex_item_A], columns = Fin 6\<rparr>\<rparr>"

definition ex_pointer_A :: MouseEvent where
  "ex_pointer_A = \<lparr>button = 0, clientX = Fin 400, clientY = Fin 300\<rparr>"

definition ex_dragging_A :: Gesture where
  "ex_dragging_A =
     \<lparr>drag = Some \<lparr>drag_id = ''b'', startX = Fin 250, startY = Fin 150,
                    gridX = Fin 2, gridY = Fin 1\<rparr>,
      resize = None\<rparr>"

text \<open>Two stores with different states: four columns behind reference 0, twelve behind 1.\<close>

definition ex_getState :: "store_ref \<Rightarrow> LayoutState" where
  "ex_getState r = (if r = 0 then \<lparr>items = [], columns = Fin 4\<rparr>
                    else \<lparr>items = [], columns = Fin 12\<rparr>)"

lemmas ex_defs =
  ex_item_def ex_props_def ex_state_def ex_rect_def ex_view_def ex_pointer_def ex_resize_def
  ex_resizing_def ex_view_unmounted_def ex_view_removed_def ex_view_collapsed_def
  ex_pointer_corner_def ex_props_flat_def ex_pointer_top_def ex_item_A_def ex_view_A_def
  ex_pointer_A_def ex_dragging_A_def

lemmas handler_defs =
  handleMove_def handleMove_fixed_def handleMoveEnd_def handleResize_def handleResize_fixed_def
  handleResizeEnd_def onPanelMouseDown_def onResizeHandleMouseDown_def effective_columns_def
  getCellWidthFromRect_def find_item_def pixelToGridX_def pixelToGridY_def pixelToGridW_def
  pixelToGridH_def num_sub_def num_gt_def signed_inf_def tick_columns_def tick_cell_width_def
  idle_def


section \<open>Rounding\<close>

subsection \<open>The binade\<close>

lemma binade_from_bounds: "e \<le> binade_from n e a \<and> binade_from n e a \<le> e + int n"
proof (induction n arbitrary: e)
  case 0
  then show ?case by simp
next
  case (Suc n)
  from Suc.IH [of "e + 1"] show ?case by simp
qed

lemma binade_from_lower: "e < binade_from n e a \<Longrightarrow> 2 powi (binade_from n e a) \<le> a"
proof (induction n arbitrary: e)
  case 0
  then show ?case by simp
next
  case (Suc n)
  show ?case
  proof (cases "2 powi (e + 1) \<le> a")
    case True
    show ?thesis
    proof (cases "e + 1 < binade_from n (e + 1) a")
      case True
      with Suc.IH \<open>2 powi (e + 1) \<le> a\<close> show ?thesis by simp
    next
      case False
      with binade_from_bounds [of "e + 1" n a] have "binade_from n (e + 1) a = e + 1" by simp
      with True show ?thesis by simp
    qed
  next
    case False
    with Suc.prems show ?thesis by simp
  qed
qed

lemma binade_from_upper: "binade_from n e a < e + int n \<Longrightarrow> a < 2 powi (binade_from n e a + 1)"
proof (induction n arbitrary: e)
  case 0
  then show ?case by simp
next
  case (Suc n)
  show ?case
  proof (cases "2 powi (e + 1) \<le> a")
    case True
    with Suc.prems have "binade_from n (e + 1) a < e + 1 + int n" by simp
    from Suc.IH [OF this] True show ?thesis by simp
  next
    case False
    then show ?thesis by simp
  qed
qed

lemma binade_range: "- 1022 \<le> binade x" "binade x \<le> 1023"
  using binade_from_bounds [of "- 1022" 2045 "\<bar>x\<bar>"] unfolding binade_def by linarith+

lemma binade_lower: "- 1022 < binade x \<Longrightarrow> 2 powi binade x \<le> \<bar>x\<bar>"
  unfolding binade_def by (rule binade_from_lower)

lemma binade_upper: "binade x < 1023 \<Longrightarrow> \<bar>x\<bar> < 2 powi (binade x + 1)"
  using binade_from_upper [of 2045 "- 1022" "\<bar>x\<bar>"] unfolding binade_def by linarith

lemma binade_neg [simp]: "binade (- x) = binade x"
  unfolding binade_def by (simp only: abs_minus_cancel)

lemma quantum_pos [simp]: "0 < quantum x"
  by (simp add: quantum_def)

lemma quantum_nonneg [simp]: "0 \<le> quantum x"
  by (simp add: quantum_def)

lemma quantum_nonzero [simp]: "quantum x \<noteq> 0"
  by (simp add: quantum_def)

lemma quantum_neg [simp]: "quantum (- x) = quantum x"
  by (simp add: quantum_def)

subsection \<open>Rounding half to even\<close>

lemma round_half_even_of_int [simp]: "round_half_even (of_int n) = n"
  by (simp add: round_half_even_def)

lemma round_half_even_cases:
  "round_half_even y = \<lfloor>y\<rfloor> \<or> round_half_even y = \<lfloor>y\<rfloor> + 1"
  by (simp add: round_half_even_def Let_def)

lemma round_half_even_mono: "y \<le> y' \<Longrightarrow> round_half_even y \<le> round_half_even y'"
proof (cases "\<lfloor>y\<rfloor> = \<lfloor>y'\<rfloor>")
  case True
  assume "y \<le> y'"
  then have "y - of_int \<lfloor>y'\<rfloor> \<le> y' - of_int \<lfloor>y'\<rfloor>" by simp
  then show ?thesis
    unfolding round_half_even_def Let_def True by (simp split: if_splits)
next
  case False
  assume "y \<le> y'"
  with False have "\<lfloor>y\<rfloor> + 1 \<le> \<lfloor>y'\<rfloor>" using floor_mono [of y y'] by linarith
  then show ?thesis
    using round_half_even_cases [of y] round_half_even_cases [of y'] by linarith
qed

lemma round_half_even_neg: "round_half_even (- y) = - round_half_even y"
proof (cases "of_int \<lfloor>y\<rfloor> = y")
  case True
  have "round_half_even (of_int (- \<lfloor>y\<rfloor>)) = - round_half_even (of_int \<lfloor>y\<rfloor>)"
    by (simp only: round_half_even_of_int)
  then have "round_half_even (- of_int \<lfloor>y\<rfloor>) = - round_half_even (of_int \<lfloor>y\<rfloor>)"
    by (simp only: of_int_minus)
  then show ?thesis by (simp only: True)
next
  case False
  then have "\<lceil>y\<rceil> = \<lfloor>y\<rfloor> + 1" by (simp add: ceiling_altdef)
  then have f: "\<lfloor>- y\<rfloor> = - \<lfloor>y\<rfloor> - 1" by (simp add: ceiling_def)
  have d: "- y - of_int (- \<lfloor>y\<rfloor> - 1) = 1 - (y - of_int \<lfloor>y\<rfloor>)" by simp
  show ?thesis
    unfolding round_half_even_def Let_def f d
    by (simp split: if_splits)
qed

lemma round_half_even_error: "\<bar>of_int (round_half_even y) - y\<bar> \<le> 1 / 2"
proof -
  define f where "f = \<lfloor>y\<rfloor>"
  have "of_int f \<le> y" "y < of_int f + 1" unfolding f_def by linarith+
  then show ?thesis
    unfolding round_half_even_def Let_def f_def [symmetric] by (auto simp: abs_if)
qed

subsection \<open>The nearest multiple of the spacing\<close>

lemma nearest_neg: "nearest (- x) = - nearest x"
  by (simp add: nearest_def round_half_even_neg)

lemma nearest_exact:
  assumes "x / quantum x = of_int n"
  shows "nearest x = x"
proof -
  have "nearest x = of_int n * quantum x"
    unfolding nearest_def assms by simp
  also have "\<dots> = x / quantum x * quantum x" by (simp only: assms)
  finally show ?thesis by simp
qed

lemma nearest_mono_same:
  assumes "x \<le> y" "quantum x = quantum y"
  shows "nearest x \<le> nearest y"
proof -
  have "x / quantum y \<le> y / quantum y" using assms(1) by (intro divide_right_mono) simp_all
  then have "round_half_even (x / quantum y) \<le> round_half_even (y / quantum y)"
    by (rule round_half_even_mono)
  then show ?thesis by (simp add: nearest_def assms(2))
qed

text \<open>A grid point of the quantum of x that bounds x bounds the rounded value too.\<close>

lemma nearest_ge:
  assumes "of_int n * quantum x \<le> x"
  shows "of_int n * quantum x \<le> nearest x"
proof -
  have "of_int n \<le> x / quantum x" using assms by (simp add: pos_le_divide_eq)
  then have "round_half_even (of_int n) \<le> round_half_even (x / quantum x)"
    by (rule round_half_even_mono)
  then show ?thesis by (simp add: nearest_def)
qed

lemma nearest_le:
  assumes "x \<le> of_int n * quantum x"
  shows "nearest x \<le> of_int n * quantum x"
proof -
  have "x / quantum x \<le> of_int n" using assms by (simp add: pos_divide_le_eq)
  then have "round_half_even (x / quantum x) \<le> round_half_even (of_int n)"
    by (rule round_half_even_mono)
  then show ?thesis by (simp add: nearest_def)
qed

lemma pow2_eq_grid:
  assumes "binade x - 52 \<le> k"
  shows "2 powi k = of_int (2 ^ nat (k - (binade x - 52))) * quantum x"
proof -
  have "(2::real) powi k = 2 powi (k - (binade x - 52)) * 2 powi (binade x - 52)"
    by (simp flip: power_int_add)
  also have "(2::real) powi (k - (binade x - 52)) = 2 ^ nat (k - (binade x - 52))"
    using assms by (simp add: power_int_def)
  finally show ?thesis by (simp add: quantum_def)
qed

lemma nearest_nonneg: "0 \<le> x \<Longrightarrow> 0 \<le> nearest x"
  using nearest_ge [of 0 x] by simp

lemma nearest_ge_pow2:
  assumes "2 powi k \<le> x" "binade x - 52 \<le> k"
  shows "2 powi k \<le> nearest x"
  using nearest_ge [of "2 ^ nat (k - (binade x - 52))" x] assms pow2_eq_grid [OF assms(2)]
  by simp

lemma nearest_le_pow2:
  assumes "x \<le> 2 powi k" "binade x - 52 \<le> k"
  shows "nearest x \<le> 2 powi k"
  using nearest_le [of x "2 ^ nat (k - (binade x - 52))"] assms pow2_eq_grid [OF assms(2)]
  by simp

lemma nearest_mono_nonneg:
  assumes "0 \<le> x" "x \<le> y"
  shows "nearest x \<le> nearest y"
proof -
  consider "binade x = binade y" | "binade x < binade y" | "binade y < binade x" by linarith
  then show ?thesis
  proof cases
    case 1
    then show ?thesis using assms(2) by (intro nearest_mono_same) (simp_all add: quantum_def)
  next
    case 2
    with binade_range [of y] binade_range [of x]
    have lo: "2 powi binade y \<le> \<bar>y\<bar>" and hi: "\<bar>x\<bar> < 2 powi (binade x + 1)"
      by (auto intro: binade_lower binade_upper)
    have "nearest x \<le> 2 powi (binade x + 1)"
      using hi assms(1) by (intro nearest_le_pow2) simp_all
    also have "\<dots> \<le> 2 powi binade y"
      using 2 by (intro power_int_increasing) simp_all
    also have "\<dots> \<le> nearest y"
      using lo assms by (intro nearest_ge_pow2) simp_all
    finally show ?thesis .
  next
    case 3
    with binade_range [of y] binade_range [of x]
    have "2 powi binade x \<le> \<bar>x\<bar>" and "\<bar>y\<bar> < 2 powi (binade y + 1)"
      by (auto intro: binade_lower binade_upper)
    moreover have "(2::real) powi (binade y + 1) \<le> 2 powi binade x"
      using 3 by (intro power_int_increasing) simp_all
    ultimately have False using assms by simp
    then show ?thesis ..
  qed
qed

lemma nearest_mono: "x \<le> y \<Longrightarrow> nearest x \<le> nearest y"
proof -
  assume xy: "x \<le> y"
  consider "0 \<le> x" | "x < 0" "0 \<le> y" | "y < 0" using xy by linarith
  then show ?thesis
  proof cases
    case 1
    then show ?thesis using xy by (rule nearest_mono_nonneg)
  next
    case 2
    have "nearest (- x) \<ge> 0" using 2 by (intro nearest_nonneg) simp
    then have "nearest x \<le> 0" by (simp add: nearest_neg)
    also have "0 \<le> nearest y" using 2 by (intro nearest_nonneg)
    finally show ?thesis .
  next
    case 3
    then have "nearest (- y) \<le> nearest (- x)" using xy by (intro nearest_mono_nonneg) simp_all
    then show ?thesis by (simp add: nearest_neg)
  qed
qed

lemma binade_subnormal:
  assumes "\<bar>x\<bar> < 2 powi (- 1022)"
  shows "binade x = - 1022"
proof (rule ccontr)
  assume "binade x \<noteq> - 1022"
  with binade_range(1) [of x] have e: "- 1022 < binade x" by linarith
  then have "2 powi binade x \<le> \<bar>x\<bar>" by (rule binade_lower)
  moreover have "(2::real) powi (- 1022) \<le> 2 powi binade x"
    using e by (intro power_int_increasing) simp_all
  ultimately show False using assms by linarith
qed

lemma binade_normal:
  assumes "2 powi (- 1022) \<le> \<bar>x\<bar>"
  shows "2 powi binade x \<le> \<bar>x\<bar>"
proof (cases "- 1022 < binade x")
  case True
  then show ?thesis by (rule binade_lower)
next
  case False
  with binade_range(1) [of x] have "binade x = - 1022" by linarith
  with assms show ?thesis by simp
qed

text \<open>Exactness: a multiple of a power of two with at most 53 significant bits is kept.\<close>

lemma nearest_exact_dyadic:
  assumes "x = of_int m * 2 powi k" "- 1074 \<le> k" "\<bar>x\<bar> < 2 powi (k + 53)"
  shows "nearest x = x"
proof -
  have le: "binade x - 52 \<le> k"
  proof (cases "- 1022 < binade x")
    case True
    then have "2 powi binade x \<le> \<bar>x\<bar>" by (rule binade_lower)
    with assms(3) have "(2::real) powi binade x < 2 powi (k + 53)" by linarith
    have "binade x < k + 53"
    proof (rule ccontr)
      assume "\<not> binade x < k + 53"
      then have "(2::real) powi (k + 53) \<le> 2 powi binade x"
        by (intro power_int_increasing) simp_all
      with \<open>(2::real) powi binade x < 2 powi (k + 53)\<close> show False by linarith
    qed
    then show ?thesis by linarith
  next
    case False
    with binade_range(1) [of x] have "binade x = - 1022" by linarith
    with assms(2) show ?thesis by linarith
  qed
  have "x / quantum x = of_int m * (2 powi k / quantum x)" by (simp add: assms(1))
  also have "2 powi k / quantum x = of_int (2 ^ nat (k - (binade x - 52)))"
    using pow2_eq_grid [OF le] by simp
  finally have "x / quantum x = of_int (m * 2 ^ nat (k - (binade x - 52)))" by simp
  then show ?thesis by (rule nearest_exact)
qed

lemma nearest_abs_le_pow2:
  assumes "\<bar>x\<bar> \<le> 2 powi k" "971 \<le> k"
  shows "\<bar>nearest x\<bar> \<le> 2 powi k"
proof -
  have b: "binade x - 52 \<le> k" "binade (- x) - 52 \<le> k"
    using binade_range(2) [of x] assms(2) by simp_all
  have "nearest x \<le> 2 powi k" using assms(1) b(1) by (intro nearest_le_pow2) simp_all
  moreover have "nearest (- x) \<le> 2 powi k"
    using assms(1) b(2) by (intro nearest_le_pow2) simp_all
  ultimately show ?thesis by (simp add: nearest_neg abs_le_iff)
qed

lemma nearest_error: "\<bar>nearest x - x\<bar> \<le> quantum x / 2"
proof -
  have "nearest x - x = (of_int (round_half_even (x / quantum x)) - x / quantum x) * quantum x"
    by (simp add: nearest_def left_diff_distrib)
  then have "\<bar>nearest x - x\<bar> = \<bar>of_int (round_half_even (x / quantum x)) - x / quantum x\<bar> * quantum x"
    by (simp only: abs_mult) simp
  also have "\<dots> \<le> 1 / 2 * quantum x"
    by (intro mult_right_mono round_half_even_error) simp
  finally show ?thesis by simp
qed

lemma nearest_relative_error:
  assumes "2 powi (- 1022) \<le> \<bar>x\<bar>"
  shows "\<bar>nearest x - x\<bar> \<le> \<bar>x\<bar> / 2 ^ 53"
proof -
  have "quantum x = 2 powi binade x / 2 ^ 52"
    by (simp add: quantum_def power_int_diff)
  also have "\<dots> \<le> \<bar>x\<bar> / 2 ^ 52"
    using binade_normal [OF assms] by (intro divide_right_mono) simp_all
  finally have "quantum x / 2 \<le> \<bar>x\<bar> / 2 ^ 52 / 2" by simp
  with nearest_error [of x] show ?thesis by simp
qed

text \<open>Every value of \<open>nearest\<close> is a multiple of the least subnormal number.\<close>

lemma pow2_split:
  assumes "j \<le> k"
  shows "\<exists>N. (2::real) powi k = of_int N * 2 powi j"
proof -
  have "(2::real) powi k = 2 powi (k - j) * 2 powi j"
    by (simp flip: power_int_add)
  also have "(2::real) powi (k - j) = of_int (2 ^ nat (k - j))"
    using assms by (simp add: power_int_def)
  finally show ?thesis by blast
qed

lemma nearest_multiple: "\<exists>m. nearest x = of_int m * 2 powi (- 1074)"
proof -
  have "- 1074 \<le> binade x - 52" using binade_range(1) [of x] by simp
  then obtain N where "(2::real) powi (binade x - 52) = of_int N * 2 powi (- 1074)"
    using pow2_split by blast
  then have "nearest x = of_int (round_half_even (x / quantum x) * N) * 2 powi (- 1074)"
    by (simp only: nearest_def quantum_def of_int_mult mult.assoc)
  then show ?thesis by blast
qed

subsection \<open>The double of a real\<close>

lemma double_of_not_NaN [simp]: "double_of x \<noteq> NaN"
  by (simp add: double_of_def Let_def)

lemma double_of_Fin: "double_of x = Fin r \<Longrightarrow> r = nearest x \<and> \<bar>r\<bar> < 2 ^ 1024"
  by (auto simp: double_of_def Let_def split: if_splits)

lemma double_of_finite: "\<bar>nearest x\<bar> < 2 ^ 1024 \<Longrightarrow> double_of x = Fin (nearest x)"
  by (auto simp: double_of_def Let_def)

lemma double_of_exact: "nearest x = x \<Longrightarrow> \<bar>x\<bar> < 2 ^ 1024 \<Longrightarrow> double_of x = Fin x"
  by (simp add: double_of_finite)

lemma double_of_mono: "x \<le> y \<Longrightarrow> num_le (double_of x) (double_of y)"
  using nearest_mono [of x y] by (auto simp: double_of_def Let_def)

lemma double_of_overflow: "2 ^ 1024 \<le> x \<Longrightarrow> double_of x = PosInf"
proof -
  assume "2 ^ 1024 \<le> x"
  then have "2 powi 1024 \<le> nearest x"
    using binade_range(2) [of x] by (intro nearest_ge_pow2) simp_all
  then show ?thesis by (simp add: double_of_def)
qed

lemma double_of_int: "\<bar>n\<bar> < 2 ^ 53 \<Longrightarrow> double_of (of_int n) = Fin (of_int n)"
proof -
  assume n: "\<bar>n\<bar> < 2 ^ 53"
  then have r: "\<bar>of_int n :: real\<bar> < 2 ^ 53"
    by (metis of_int_abs of_int_less_numeral_power_cancel_iff)
  have "nearest (of_int n) = of_int n"
    using r by (intro nearest_exact_dyadic [where m = n and k = 0]) simp_all
  moreover have "\<bar>of_int n :: real\<bar> < 2 ^ 1024" using r by (rule less_trans) simp
  ultimately show ?thesis by (rule double_of_exact)
qed

lemma double_of_0 [simp]: "double_of 0 = Fin 0"
  using double_of_int [of 0] by simp

lemma double_of_1 [simp]: "double_of 1 = Fin 1"
  using double_of_int [of 1] by simp

lemma double_of_numeral [simp]:
  "(numeral n :: int) < 2 ^ 53 \<Longrightarrow> double_of (numeral n) = Fin (numeral n)"
  using double_of_int [of "numeral n"] by simp

lemma double_of_neg_numeral [simp]:
  "(numeral n :: int) < 2 ^ 53 \<Longrightarrow> double_of (- numeral n) = Fin (- numeral n)"
  using double_of_int [of "- numeral n"] by simp

lemma double_of_half:
  assumes "\<bar>n\<bar> < 2 ^ 53"
  shows "double_of (of_int n / 2) = Fin (of_int n / 2)"
proof -
  have r: "\<bar>of_int n :: real\<bar> < 2 ^ 53"
    using assms by (metis of_int_abs of_int_less_numeral_power_cancel_iff)
  have "nearest (of_int n / 2) = of_int n / 2"
    using r by (intro nearest_exact_dyadic [where m = n and k = "- 1"]) simp_all
  moreover have "\<bar>of_int n / 2 :: real\<bar> < 2 ^ 1024" using r by simp
  ultimately show ?thesis by (rule double_of_exact)
qed

lemma double_of_numeral_half [simp]:
  "(numeral n :: int) < 2 ^ 53 \<Longrightarrow> double_of (numeral n / 2) = Fin (numeral n / 2)"
  using double_of_half [of "numeral n"] by simp

lemma double_of_one_half [simp]: "double_of (1 / 2) = Fin (1 / 2)"
  using double_of_half [of 1] by simp

lemma is_double_int: "\<bar>n\<bar> < 2 ^ 53 \<Longrightarrow> is_double (of_int n)"
  by (simp add: is_double_def double_of_int)

lemma is_double_bound: "is_double x \<Longrightarrow> \<bar>x\<bar> < 2 ^ 1024"
  using double_of_Fin [of x x] by (simp add: is_double_def)

lemma is_double_nearest: "is_double x \<Longrightarrow> nearest x = x"
  using double_of_Fin [of x x] by (simp add: is_double_def)

text \<open>The double of a real whose binade is known.\<close>

lemma binade_eq:
  assumes "2 powi e \<le> \<bar>x\<bar>" "\<bar>x\<bar> < 2 powi (e + 1)" "- 1022 \<le> e" "e \<le> 1023"
  shows "binade x = e"
proof -
  consider "binade x = e" | "binade x < e" | "e < binade x" by linarith
  then show ?thesis
  proof cases
    case 1
    then show ?thesis .
  next
    case 2
    with assms(4) have "\<bar>x\<bar> < 2 powi (binade x + 1)" by (intro binade_upper) simp
    moreover have "(2::real) powi (binade x + 1) \<le> 2 powi e"
      using 2 by (intro power_int_increasing) simp_all
    ultimately show ?thesis using assms(1) by linarith
  next
    case 3
    with assms(3) have "2 powi binade x \<le> \<bar>x\<bar>" by (intro binade_lower) simp
    moreover have "(2::real) powi (e + 1) \<le> 2 powi binade x"
      using 3 by (intro power_int_increasing) simp_all
    ultimately show ?thesis using assms(2) by linarith
  qed
qed

lemma double_of_in_binade:
  assumes "2 powi e \<le> \<bar>x\<bar>" "\<bar>x\<bar> < 2 powi (e + 1)" "- 1022 \<le> e" "e \<le> 1022"
  shows "double_of x = Fin (of_int (round_half_even (x / 2 powi (e - 52))) * 2 powi (e - 52))"
proof -
  have b: "binade x = e" using assms by (intro binade_eq) simp_all
  have "\<bar>x\<bar> \<le> 2 powi (e + 1)" using assms(2) by simp
  moreover have "(2::real) powi (e + 1) \<le> 2 powi 1023"
    using assms(4) by (intro power_int_increasing) simp_all
  ultimately have "\<bar>x\<bar> \<le> 2 powi 1023" by linarith
  then have "\<bar>nearest x\<bar> \<le> 2 powi 1023" by (intro nearest_abs_le_pow2) simp_all
  also have "(2::real) powi 1023 < 2 ^ 1024" by simp
  finally have "double_of x = Fin (nearest x)" by (rule double_of_finite)
  then show ?thesis by (simp only: nearest_def quantum_def b)
qed

subsection \<open>The order of the numbers\<close>

lemma num_le_refl: "a \<noteq> NaN \<Longrightarrow> num_le a a"
  by (cases a) simp_all

lemma num_le_trans: "num_le a b \<Longrightarrow> num_le b c \<Longrightarrow> num_le a c"
  by (cases a; cases b; cases c) simp_all

lemma num_le_not_NaN: "num_le a b \<Longrightarrow> a \<noteq> NaN \<and> b \<noteq> NaN"
  by (cases a; cases b) simp_all

lemma Math_round_mono: "num_le a b \<Longrightarrow> num_le (Math_round a) (Math_round b)"
  by (cases a; cases b) (simp_all add: floor_mono)

lemma Math_round_not_NaN: "a \<noteq> NaN \<Longrightarrow> Math_round a \<noteq> NaN"
  by (cases a) simp_all

lemma Math_min_mono: "c \<noteq> NaN \<Longrightarrow> num_le a b \<Longrightarrow> num_le (Math_min c a) (Math_min c b)"
  by (cases a; cases b; cases c) simp_all

lemma Math_max_mono: "c \<noteq> NaN \<Longrightarrow> num_le a b \<Longrightarrow> num_le (Math_max c a) (Math_max c b)"
  by (cases a; cases b; cases c) simp_all

lemma Math_max_ge: "b \<noteq> NaN \<Longrightarrow> num_le (Fin a) (Math_max (Fin a) b)"
  by (cases b) simp_all

lemma Math_min_le: "a \<noteq> NaN \<Longrightarrow> b \<noteq> NaN \<Longrightarrow> num_le (Math_min a b) a"
  by (cases a; cases b) simp_all

lemma Math_max_not_NaN: "a \<noteq> NaN \<Longrightarrow> b \<noteq> NaN \<Longrightarrow> Math_max a b \<noteq> NaN"
  by (cases a; cases b) simp_all

lemma Math_min_not_NaN: "a \<noteq> NaN \<Longrightarrow> b \<noteq> NaN \<Longrightarrow> Math_min a b \<noteq> NaN"
  by (cases a; cases b) simp_all

text \<open>A clamp between zero and a finite bound is finite and inside the bounds.\<close>

lemma clamp_finite:
  assumes "0 \<le> hi" "q \<noteq> NaN"
  shows "\<exists>r. Math_max (Fin 0) (Math_min (Fin hi) q) = Fin r \<and> 0 \<le> r \<and> r \<le> hi"
  using assms by (cases q) auto

lemma clamp_nonpos:
  assumes "num_le q (Fin 0)" "c \<noteq> NaN"
  shows "Math_max (Fin 0) (Math_min c q) = Fin 0"
  using assms by (cases q; cases c) auto

lemma min_finite:
  assumes "1 \<le> hi" "num_le (Fin 1) m"
  shows "\<exists>r. Math_min (Fin hi) m = Fin r \<and> 1 \<le> r \<and> r \<le> hi"
  using assms by (cases m) auto

subsection \<open>Arithmetic on finite numbers\<close>

lemma num_sub_Fin [simp]: "num_sub (Fin a) (Fin b) = double_of (a - b)"
  by (simp add: num_sub_def)

lemma num_sub_not_NaN: "b \<noteq> NaN \<Longrightarrow> num_sub (Fin a) b \<noteq> NaN"
  by (cases b) (simp_all add: num_sub_def)

lemma num_div_not_NaN: "cw \<noteq> 0 \<Longrightarrow> a \<noteq> NaN \<Longrightarrow> num_div a (Fin cw) \<noteq> NaN"
  by (cases a) (simp_all add: signed_inf_def)

lemma num_mul_Fin_not_NaN [simp]: "num_mul (Fin a) (Fin b) \<noteq> NaN"
  by simp

text \<open>A difference between zero and a double stays finite.\<close>

lemma double_of_between:
  assumes "is_double c" "lo \<le> x" "x \<le> c" "is_double lo"
  shows "\<exists>r. double_of x = Fin r \<and> lo \<le> r \<and> r \<le> c"
proof -
  have "num_le (double_of lo) (double_of x)" "num_le (double_of x) (double_of c)"
    using assms by (simp_all add: double_of_mono)
  then have "num_le (Fin lo) (double_of x)" "num_le (double_of x) (Fin c)"
    using assms by (simp_all add: is_double_def)
  then show ?thesis by (cases "double_of x") simp_all
qed

lemma is_double_0 [simp]: "is_double 0" and is_double_1 [simp]: "is_double 1"
  by (simp_all add: is_double_def)

lemma pixelToGridX_Fin:
  "cw \<noteq> 0 \<Longrightarrow> pixelToGridX (Fin c) (Fin cw) (Fin px) =
     Math_max (Fin 0) (Math_min (double_of (c - 1)) (Math_round (double_of (px / cw))))"
  by (simp add: pixelToGridX_def)

lemma pixelToGridY_Fin:
  "ch \<noteq> 0 \<Longrightarrow> pixelToGridY (Fin ch) (Fin py) = Math_max (Fin 0) (Math_round (double_of (py / ch)))"
  by (simp add: pixelToGridY_def)

subsection \<open>Grid to pixel and back\<close>

lemma product_error:
  assumes "is_double s"
  shows "\<bar>nearest (of_int n * s) - of_int n * s\<bar> \<le> \<bar>of_int n * s\<bar> / 2 ^ 53"
proof (cases "2 powi (- 1022) \<le> \<bar>of_int n * s\<bar>")
  case True
  then show ?thesis by (rule nearest_relative_error)
next
  case False
  obtain m where "nearest s = of_int m * 2 powi (- 1074)"
    using nearest_multiple by blast
  then have "s = of_int m * 2 powi (- 1074)"
    using is_double_nearest [OF assms] by simp
  then have x: "of_int n * s = of_int (n * m) * 2 powi (- 1074)" by simp
  have "(2::real) powi (- 1022) \<le> 2 powi (- 1074 + 53)"
    by (intro power_int_increasing) simp_all
  with False have "\<bar>of_int n * s\<bar> < 2 powi (- 1074 + 53)" by linarith
  with x have "nearest (of_int n * s) = of_int n * s"
    by (intro nearest_exact_dyadic [where m = "n * m" and k = "- 1074"]) simp_all
  then show ?thesis by simp
qed

lemma round_trip_core:
  assumes "is_double s" "s \<noteq> 0" "0 \<le> n" "n \<le> 2 ^ 50"
    and "num_mul (Fin (of_int n)) (Fin s) = Fin p"
  shows "Math_round (num_div (Fin p) (Fin s)) = Fin (of_int n)"
proof -
  let ?n = "of_int n :: real"
  have p: "p = nearest (?n * s)"
    using assms(5) double_of_Fin by simp
  have n: "0 \<le> ?n" "?n \<le> 2 ^ 50" using assms(3,4) by simp_all
  have e1: "\<bar>p - ?n * s\<bar> \<le> \<bar>?n * s\<bar> / 2 ^ 53"
    unfolding p using assms(1) by (rule product_error)
  let ?q = "p / s"
  have "?q - ?n = (p - ?n * s) / s" using assms(2) by (simp add: field_simps)
  then have "\<bar>?q - ?n\<bar> = \<bar>p - ?n * s\<bar> / \<bar>s\<bar>" by (simp only: abs_divide)
  also have "\<dots> \<le> \<bar>?n * s\<bar> / 2 ^ 53 / \<bar>s\<bar>" using e1 by (intro divide_right_mono) simp_all
  also have "\<dots> = ?n / 2 ^ 53" using assms(2) n(1) by (simp add: abs_mult)
  finally have e2: "\<bar>?q - ?n\<bar> \<le> ?n / 2 ^ 53" .
  show ?thesis
  proof (cases "n = 0")
    case True
    with e2 have "?q = 0" by simp
    with True assms(2) show ?thesis by simp
  next
    case False
    with assms(3) have n1: "1 \<le> ?n" by linarith
    have q: "?n - ?n / 2 ^ 53 \<le> ?q" "?q \<le> ?n + ?n / 2 ^ 53" using e2 by linarith+
    have "?n / 2 ^ 53 \<le> 2 ^ 50 / 2 ^ 53" using n(2) by (intro divide_right_mono) simp_all
    then have small1: "?n / 2 ^ 53 \<le> 1 / 8" by simp
    have qpos: "1 / 2 \<le> ?q" using q(1) n1 small1 by linarith
    have "(2::real) powi (- 1022) \<le> 2 powi (- 1)" by (intro power_int_increasing) simp_all
    moreover have "(2::real) powi (- 1) = 1 / 2" by simp
    ultimately have "2 powi (- 1022) \<le> \<bar>?q\<bar>" using qpos by linarith
    then have "\<bar>nearest ?q - ?q\<bar> \<le> \<bar>?q\<bar> / 2 ^ 53" by (rule nearest_relative_error)
    also have "\<bar>?q\<bar> = ?q" using qpos by (intro abs_of_nonneg) linarith
    finally have e3: "\<bar>nearest ?q - ?q\<bar> \<le> ?q / 2 ^ 53" .
    have "?q / 2 ^ 53 \<le> (?n + ?n / 2 ^ 53) / 2 ^ 53" using q(2) by (intro divide_right_mono) simp_all
    with e3 have e4: "\<bar>nearest ?q - ?q\<bar> \<le> (?n + ?n / 2 ^ 53) / 2 ^ 53" by linarith
    have "(?n + ?n / 2 ^ 53) / 2 ^ 53 \<le> (2 ^ 50 + 1 / 8) / 2 ^ 53"
    proof (intro divide_right_mono)
      show "?n + ?n / 2 ^ 53 \<le> 2 ^ 50 + 1 / 8" using n(2) small1 by linarith
    qed simp
    then have small2: "(?n + ?n / 2 ^ 53) / 2 ^ 53 \<le> 1 / 4" by simp
    have near: "?n - 3 / 8 \<le> nearest ?q" "nearest ?q \<le> ?n + 3 / 8"
      using e2 e4 small1 small2 by linarith+
    then have fl: "\<lfloor>nearest ?q + 1 / 2\<rfloor> = n" by linarith
    have "\<bar>nearest ?q\<bar> \<le> 2 ^ 50 + 3 / 8" using near n by linarith
    also have "\<dots> < (2::real) ^ 1024" by simp
    finally have "double_of ?q = Fin (nearest ?q)" by (rule double_of_finite)
    then show ?thesis using assms(2) fl by simp
  qed
qed

lemma Math_min_upper: "num_le (Fin a) c \<Longrightarrow> Math_min c (Fin a) = Fin a"
  by (cases c) auto

section \<open>What a resize tick dispatches\<close>

lemma handleResize_Some:
  assumes "containerRef v = Some rect" "find_item (items (snapshot v)) (resize_id rs) = Some item"
  shows "handleResize p v e (Some rs) =
           [Resize (resize_id rs)
              (resize_width (tick_columns True p v) (tick_cell_width True p v rect) (item_x item)
                 (num_sub (clientX e) (rect_left rect)))
              (resize_height (cellHeight p) (item_y item) (num_sub (clientY e) (rect_top rect)))]"
  using assms
  by (simp add: handleResize_def resize_width_def resize_height_def tick_columns_def
      tick_cell_width_def pixelToGridW_def Let_def)

lemma handleResize_fixed_Some:
  assumes "containerRef v = Some rect" "find_item (items (snapshot v)) (resize_id rs) = Some item"
  shows "handleResize_fixed p v e (Some rs) =
           [Resize (resize_id rs)
              (resize_width (tick_columns False p v) (tick_cell_width False p v rect) (item_x item)
                 (num_sub (clientX e) (rect_left rect)))
              (resize_height (cellHeight p) (item_y item) (num_sub (clientY e) (rect_top rect)))]"
  using assms
  by (simp add: handleResize_fixed_def resize_width_def resize_height_def tick_columns_def
      tick_cell_width_def Let_def)

lemma step_resize_tick:
  assumes "resize g = Some rs" "drag g = None"
    "containerRef v = Some rect" "find_item (items (snapshot v)) (resize_id rs) = Some item"
  shows "step fluid p g (v, MouseMove e) =
           (g, [Resize (resize_id rs)
              (resize_width (tick_columns fluid p v) (tick_cell_width fluid p v rect) (item_x item)
                 (num_sub (clientX e) (rect_left rect)))
              (resize_height (cellHeight p) (item_y item) (num_sub (clientY e) (rect_top rect)))])"
  using assms handleResize_Some[OF assms(3,4)] handleResize_fixed_Some[OF assms(3,4)]
  by (cases fluid) (simp_all add: handleMove_def handleMove_fixed_def)

section \<open>Runs of the gesture machine\<close>

lemma run_append:
  "run fluid p g (xs @ ys) =
     (case run fluid p g xs of
        (g1, a1) \<Rightarrow> (case run fluid p g1 ys of (g2, a2) \<Rightarrow> (g2, a1 @ a2)))"
  by (induction xs arbitrary: g) (auto split: prod.splits)

lemma step_down_idle:
  assumes "draggable p" "button e = 0"
  shows "step fluid p idle (v, PanelMouseDown e item) =
           (\<lparr>drag = Some \<lparr>drag_id = item_id item, startX = clientX e, startY = clientY e,
                gridX = item_x item, gridY = item_y item\<rparr>, resize = None\<rparr>, [])"
  using assms by (simp add: idle_def onPanelMouseDown_def)

lemma step_up_dragging:
  "step fluid p \<lparr>drag = Some d, resize = None\<rparr> (v, MouseUp) =
     (idle, [Move (drag_id d) (gridX d) (gridY d)])"
  by (simp add: handleMoveEnd_def idle_def)



lemma step_idle_window_event:
  "is_window_event ev \<Longrightarrow> step fluid p idle (v, ev) = (idle, [])"
  by (cases ev; cases fluid) (simp_all add: handler_defs)

lemma run_idle_window_events:
  "\<forall>x\<in>set evs. is_window_event (snd x) \<Longrightarrow> run fluid p idle evs = (idle, [])"
proof (induction evs)
  case Nil
  then show ?case by simp
next
  case (Cons x evs)
  obtain v ev where x: "x = (v, ev)" by (cases x)
  with Cons.prems have "step fluid p idle x = (idle, [])"
    using step_idle_window_event by simp
  moreover from Cons have "run fluid p idle evs = (idle, [])" by simp
  ultimately show ?case by simp
qed

text \<open>What a pointer-move does to the preview of a drag, in either grid.\<close>

lemma step_move_computed:
  assumes "containerRef v = Some rect"
  shows "step fluid p \<lparr>drag = Some d, resize = None\<rparr> (v, MouseMove e) =
           (\<lparr>drag = Some (d\<lparr>gridX := pixelToGridX (tick_columns fluid p v)
                                         (tick_cell_width fluid p v rect)
                                         (num_sub (clientX e) (rect_left rect)),
                               gridY := pixelToGridY (cellHeight p)
                                         (num_sub (clientY e) (rect_top rect))\<rparr>),
             resize = None\<rparr>, [])"
  using assms
  by (cases fluid)
     (simp_all add: handleMove_def handleMove_fixed_def handleResize_def handleResize_fixed_def
        pixelToGridX_def tick_columns_def tick_cell_width_def Let_def)

lemma step_move_unmounted:
  assumes "containerRef v = None"
  shows "step fluid p \<lparr>drag = Some d, resize = None\<rparr> (v, MouseMove e) =
           (\<lparr>drag = Some d, resize = None\<rparr>, [])"
  using assms
  by (cases fluid)
     (simp_all add: handleMove_def handleMove_fixed_def handleResize_def handleResize_fixed_def)


text \<open>The preview held after a list of pointer-moves is the one the specification describes.\<close>

lemma run_moves_preview:
  assumes "\<forall>x\<in>set ms. is_move (snd x)"
  shows "run fluid p \<lparr>drag = Some d, resize = None\<rparr> ms =
           (\<lparr>drag = Some (d\<lparr>gridX := fst (preview_after fluid p (gridX d, gridY d) ms),
                               gridY := snd (preview_after fluid p (gridX d, gridY d) ms)\<rparr>),
             resize = None\<rparr>, [])"
  using assms
proof (induction ms arbitrary: d)
  case Nil
  then show ?case by simp
next
  case (Cons x ms)
  obtain v ev where x: "x = (v, ev)" by (cases x)
  with Cons.prems obtain e where ev: "ev = MouseMove e" by (cases ev) auto
  from Cons.prems have ms: "\<forall>x\<in>set ms. is_move (snd x)" by simp
  show ?case
  proof (cases "containerRef v")
    case None
    then have "step fluid p \<lparr>drag = Some d, resize = None\<rparr> (v, MouseMove e) =
                 (\<lparr>drag = Some d, resize = None\<rparr>, [])"
      by (rule step_move_unmounted)
    with Cons.IH [OF ms, of d] None x ev show ?thesis by simp
  next
    case (Some rect)
    let ?d1 = "d\<lparr>gridX := pixelToGridX (tick_columns fluid p v) (tick_cell_width fluid p v rect)
                           (num_sub (clientX e) (rect_left rect)),
                  gridY := pixelToGridY (cellHeight p) (num_sub (clientY e) (rect_top rect))\<rparr>"
    have "step fluid p \<lparr>drag = Some d, resize = None\<rparr> (v, MouseMove e) =
            (\<lparr>drag = Some ?d1, resize = None\<rparr>, [])"
      using Some by (rule step_move_computed)
    with Cons.IH [OF ms, of ?d1] Some x ev show ?thesis by simp
  qed
qed

section \<open>The claims\<close>

subsection \<open>C1: the resize width stays inside the grid\<close>

text \<open>
  Claim C1 says that the width \<open>w\<close> of every dispatched resize action satisfies
  \<open>item.x + w <= columns\<close>, for any pointer position, any \<open>item.x\<close> and any \<open>columns\<close>. A
  container that is mounted with width zero gives the fluid grid a cell width of zero;
  with the pointer at or left of the item's left edge the tick divides zero by zero and
  dispatches \<open>w = NaN\<close>, for which \<open>item.x + w <= columns\<close> is false.
\<close>

theorem resize_width_nan_counterexample:
  "handleResize ex_props ex_view_collapsed ex_pointer_corner (Some ex_resize) =
     [Resize ''a'' NaN (Fin 1)]
   \<and> \<not> num_le (num_add (item_x ex_item) NaN) (effective_columns ex_props ex_state)"
  by (simp add: ex_defs handler_defs)

text \<open>
  The width is \<open>Math.min(columns - item.x, m)\<close>, where \<open>m\<close> is \<open>NaN\<close>, \<open>+Infinity\<close> or an
  integer from 1 on. When \<open>item.x\<close> and \<open>columns\<close> are integers below \<open>2^52\<close> in magnitude,
  the difference and the sum are computed without rounding.
\<close>

lemma grid_size_cases:
  "Math_max (Fin 1) (Math_round z) = NaN \<or> Math_max (Fin 1) (Math_round z) = PosInf
   \<or> (\<exists>k. 1 \<le> k \<and> Math_max (Fin 1) (Math_round z) = Fin (of_int k))"
proof (cases z)
  case (Fin a)
  have "Math_max (Fin 1) (Fin (of_int k)) = Fin (of_int (max 1 k))" for k
    by (simp add: max_def)
  then have "Math_max (Fin 1) (Math_round (Fin a)) = Fin (of_int (max 1 \<lfloor>a + 1 / 2\<rfloor>))"
    by (simp only: Math_round.simps)
  with Fin show ?thesis by (metis max.cobounded1)
next
  case NegInf
  then have "Math_max (Fin 1) (Math_round z) = Fin (of_int 1)" by simp
  then show ?thesis by blast
qed simp_all

lemma integer_clamp:
  assumes "\<bar>xi\<bar> < 2 ^ 52" "\<bar>ci\<bar> < 2 ^ 52"
    and "w = Math_min (num_sub (Fin (of_int ci)) (Fin (of_int xi))) (Math_max (Fin 1) (Math_round z))"
  shows "\<not> num_lt (Fin (of_int ci)) (num_add (Fin (of_int xi)) w)
       \<and> (w \<noteq> NaN \<longrightarrow> num_le (num_add (Fin (of_int xi)) w) (Fin (of_int ci)))"
proof -
  have "\<bar>ci - xi\<bar> < 2 ^ 53" using assms(1,2) by simp
  then have "double_of (of_int (ci - xi)) = Fin (of_int (ci - xi))" by (rule double_of_int)
  then have d: "double_of (of_int ci - of_int xi) = Fin (of_int (ci - xi))"
    by (simp only: of_int_diff)
  have "\<bar>ci\<bar> < 2 ^ 53" using assms(2) by simp
  then have c: "double_of (of_int ci) = Fin (of_int ci)" by (rule double_of_int)
  consider "Math_max (Fin 1) (Math_round z) = NaN" | "Math_max (Fin 1) (Math_round z) = PosInf"
    | k where "1 \<le> k" "Math_max (Fin 1) (Math_round z) = Fin (of_int k)"
    using grid_size_cases by blast
  then show ?thesis
  proof cases
    case 1
    then show ?thesis by (simp add: assms(3) d)
  next
    case 2
    then have "w = Fin (of_int (ci - xi))" by (simp add: assms(3) d)
    then show ?thesis using c by simp
  next
    case 3
    let ?t = "xi + min (ci - xi) k"
    have w: "w = Fin (of_int (min (ci - xi) k))" by (simp add: assms(3) d 3(2) min_def)
    have "\<bar>?t\<bar> < 2 ^ 53" "?t \<le> ci" using assms(1,2) 3(1) by simp_all
    then have "double_of (of_int ?t) = Fin (of_int ?t)" "(of_int ?t :: real) \<le> of_int ci"
      by (simp_all only: double_of_int of_int_le_iff)
    then show ?thesis unfolding w by simp
  qed
qed

text \<open>
  With fractional values the rounded sum can exceed the column count: for \<open>item.x\<close> the
  double of 2.3, \<open>columns\<close> the double of 15.1 and a pointer far to the right, the
  width is the double of 12.8 and \<open>item.x + w\<close> is the double above \<open>columns\<close>.
\<close>

lemma resize_width_fraction_exceeds:
  "is_double (5179139571476070 / 2 ^ 51) \<and> is_double (8500544296661811 / 2 ^ 49)
   \<and> num_gt (num_add (Fin (5179139571476070 / 2 ^ 51))
               (Math_min (num_sub (Fin (8500544296661811 / 2 ^ 49)) (Fin (5179139571476070 / 2 ^ 51)))
                  (Fin 9998)))
        (Fin (8500544296661811 / 2 ^ 49))"
proof -
  have x: "double_of (5179139571476070 / 2 ^ 51) = Fin (5179139571476070 / 2 ^ 51)"
    by (subst double_of_in_binade [where e = 1]) (simp_all add: round_half_even_def)
  have c: "double_of (8500544296661811 / 2 ^ 49) = Fin (8500544296661811 / 2 ^ 49)"
    by (subst double_of_in_binade [where e = 3]) (simp_all add: round_half_even_def)
  have d: "double_of (8500544296661811 / 2 ^ 49 - 5179139571476070 / 2 ^ 51) =
             Fin (3602879701896397 / 2 ^ 48)"
    by (subst double_of_in_binade [where e = 3]) (simp_all add: round_half_even_def)
  have s: "double_of (5179139571476070 / 2 ^ 51 + 3602879701896397 / 2 ^ 48) =
             Fin (2125136074165453 / 2 ^ 47)"
    by (subst double_of_in_binade [where e = 3]) (simp_all add: round_half_even_def)
  have w: "Math_min (Fin (3602879701896397 / 2 ^ 48)) (Fin 9998) = Fin (3602879701896397 / 2 ^ 48)"
    by simp
  have "num_lt (Fin (8500544296661811 / 2 ^ 49)) (Fin (2125136074165453 / 2 ^ 47))"
    by simp
  then show ?thesis
    by (simp only: is_double_def num_gt_def num_sub_Fin x c d w num_add.simps s simp_thms)
qed

text \<open>
  Claim C1 as amended: for every resize action dispatched by a pointer-move tick, in the
  fluid and in the fixed grid, whose item has an integer \<open>item.x\<close> in a grid with an
  integer \<open>columns\<close>, both below \<open>2^52\<close> in magnitude, and for any pointer position:
  \<open>item.x + w > columns\<close> is never true, and \<open>item.x + w <= columns\<close> is true whenever
  \<open>w\<close> is not \<open>NaN\<close>.
\<close>

theorem resize_width_within_columns:
  assumes "Resize i w h \<in> set (snd (step fluid p g (v, MouseMove e)))"
    and "resize g = Some rs" "find_item (items (snapshot v)) (resize_id rs) = Some item"
    and "item_x item = Fin (of_int xi)" "tick_columns fluid p v = Fin (of_int ci)"
    and "\<bar>xi\<bar> < 2 ^ 52" "\<bar>ci\<bar> < 2 ^ 52"
  shows "\<not> num_gt (num_add (item_x item) w) (tick_columns fluid p v)
       \<and> (w \<noteq> NaN \<longrightarrow> num_le (num_add (item_x item) w) (tick_columns fluid p v))"
proof -
  obtain z where "w = Math_min (num_sub (tick_columns fluid p v) (item_x item))
                        (Math_max (Fin 1) (Math_round z))"
    using assms(1,2,3)
    by (cases fluid)
       (auto simp: handleResize_def handleResize_fixed_def tick_columns_def pixelToGridW_def
             Let_def split: option.splits)
  then have "w = Math_min (num_sub (Fin (of_int ci)) (Fin (of_int xi)))
                   (Math_max (Fin 1) (Math_round z))"
    by (simp only: assms(4,5))
  from integer_clamp [OF assms(6,7) this] show ?thesis
    by (simp add: assms(4,5) num_gt_def)
qed

theorem resize_width_within_columns_witness:
  "\<not> num_gt (num_add (item_x ex_item) (Fin 3)) (tick_columns False ex_props ex_view)
   \<and> num_le (num_add (item_x ex_item) (Fin 3)) (tick_columns False ex_props ex_view)"
proof -
  have a: "Resize ''a'' (Fin 3) (Fin 3)
             \<in> set (snd (step False ex_props ex_resizing (ex_view, MouseMove ex_pointer)))"
    by (simp add: ex_defs handler_defs)
  have b: "resize ex_resizing = Some ex_resize"
    by (simp add: ex_defs)
  have c: "find_item (items (snapshot ex_view)) (resize_id ex_resize) = Some ex_item"
    by (simp add: ex_defs find_item_def)
  have d: "item_x ex_item = Fin (of_int 0)" "tick_columns False ex_props ex_view = Fin (of_int 4)"
    by (simp_all add: ex_defs tick_columns_def)
  have e: "\<bar>0::int\<bar> < 2 ^ 52" "\<bar>4::int\<bar> < 2 ^ 52" "Fin 3 \<noteq> NaN"
    by simp_all
  show ?thesis
    using resize_width_within_columns [OF a b c d e(1,2)] e(3) by blast
qed

subsection \<open>C2: a drag commits once, on pointer-up\<close>

text \<open>
  Claim C2: for every drag gesture, that is a pointer-down of the primary button on a panel
  of a draggable grid with no gesture active, followed by any sequence of pointer-moves
  and a pointer-up, nothing is dispatched during the pointer-moves, which only replace
  the preview position in the drag state; and the pointer-up dispatches exactly one move
  action, which carries the item id and the last computed preview position (the captured
  position of the item when no tick computed one), whatever that position is.
\<close>

theorem drag_commits_once_on_pointer_up:
  assumes "draggable p" "button e = 0" "\<forall>x\<in>set ms. is_move (snd x)"
  shows "run fluid p idle ((v0, PanelMouseDown e item) # ms) =
           (\<lparr>drag = Some \<lparr>drag_id = item_id item, startX = clientX e, startY = clientY e,
                gridX = fst (preview_after fluid p (item_x item, item_y item) ms),
                gridY = snd (preview_after fluid p (item_x item, item_y item) ms)\<rparr>,
             resize = None\<rparr>, [])
       \<and> run fluid p idle ((v0, PanelMouseDown e item) # ms @ [(v1, MouseUp)]) =
           (idle, [Move (item_id item)
                     (fst (preview_after fluid p (item_x item, item_y item) ms))
                     (snd (preview_after fluid p (item_x item, item_y item) ms))])"
proof -
  let ?start = "\<lparr>drag_id = item_id item, startX = clientX e, startY = clientY e,
                gridX = item_x item, gridY = item_y item\<rparr>"
  let ?pos = "preview_after fluid p (item_x item, item_y item) ms"
  let ?final = "\<lparr>drag_id = item_id item, startX = clientX e, startY = clientY e,
               gridX = fst ?pos, gridY = snd ?pos\<rparr>"
  have moves: "run fluid p \<lparr>drag = Some ?start, resize = None\<rparr> ms =
                 (\<lparr>drag = Some ?final, resize = None\<rparr>, [])"
    using run_moves_preview [OF assms(3), where d = ?start and fluid = fluid and p = p] by simp
  have a: "run fluid p idle ((v0, PanelMouseDown e item) # ms) =
             (\<lparr>drag = Some ?final, resize = None\<rparr>, [])"
    using moves step_down_idle [OF assms(1,2)] by simp
  have "run fluid p \<lparr>drag = Some ?start, resize = None\<rparr> (ms @ [(v1, MouseUp)]) =
          (idle, [Move (item_id item) (fst ?pos) (snd ?pos)])"
    using moves step_up_dragging [of fluid p ?final v1] by (simp add: run_append)
  then have b: "run fluid p idle ((v0, PanelMouseDown e item) # ms @ [(v1, MouseUp)]) =
                (idle, [Move (item_id item) (fst ?pos) (snd ?pos)])"
    using step_down_idle [OF assms(1,2)] by simp
  from a b show ?thesis by blast
qed

theorem drag_commits_once_on_pointer_up_witness:
  "draggable ex_props \<and> button ex_pointer = 0
   \<and> preview_after True ex_props (item_x ex_item_A, item_y ex_item_A)
       [(ex_view_A, MouseMove ex_pointer_A)] = (Fin 4, Fin 3)
   \<and> run True ex_props idle
       ((ex_view_A, PanelMouseDown ex_pointer ex_item_A) # [(ex_view_A, MouseMove ex_pointer_A)]
          @ [(ex_view_A, MouseUp)])
     = (idle, [Move (item_id ex_item_A) (Fin 4) (Fin 3)])"
proof -
  have a: "draggable ex_props" and b: "button ex_pointer = 0"
    by (simp_all add: ex_defs)
  have c: "\<forall>x\<in>set [(ex_view_A, MouseMove ex_pointer_A)]. is_move (snd x)"
    by simp
  have d: "preview_after True ex_props (item_x ex_item_A, item_y ex_item_A)
             [(ex_view_A, MouseMove ex_pointer_A)] = (Fin 4, Fin 3)"
    by (simp add: ex_defs handler_defs)
  have "run True ex_props idle
       ((ex_view_A, PanelMouseDown ex_pointer ex_item_A) # [(ex_view_A, MouseMove ex_pointer_A)]
          @ [(ex_view_A, MouseUp)])
     = (idle, [Move (item_id ex_item_A) (Fin 4) (Fin 3)])"
    using drag_commits_once_on_pointer_up [OF a b c, of True ex_view_A ex_item_A ex_view_A]
    by (simp only: d fst_conv snd_conv)
  with a b d show ?thesis by blast
qed

text \<open>
  When the container is mounted at the last pointer-move, the preview is the position
  computed from the pointer of that tick, whatever came before.
\<close>

lemma preview_after_last_tick:
  assumes "containerRef v = Some rect"
  shows "preview_after fluid p pos (ms @ [(v, MouseMove e)]) =
           (pixelToGridX (tick_columns fluid p v) (tick_cell_width fluid p v rect)
              (num_sub (clientX e) (rect_left rect)),
            pixelToGridY (cellHeight p) (num_sub (clientY e) (rect_top rect)))"
  using assms by (induction fluid p pos ms rule: preview_after.induct) simp_all

text \<open>Scenario A: the drag from \<open>(2,1)\<close> to the pixel of \<open>(4,3)\<close> dispatches one move to \<open>(4,3)\<close>.\<close>

lemma scenario_A_drag:
  "run True ex_props idle
     [(ex_view_A, PanelMouseDown ex_pointer ex_item_A), (ex_view_A, MouseMove ex_pointer_A),
      (ex_view_A, MouseUp)]
   = (idle, [Move ''b'' (Fin 4) (Fin 3)])"
  by (simp add: ex_defs handler_defs)

subsection \<open>C3: a resize commits on its ticks\<close>

text \<open>
  Claim C3 says that every pointer-move tick of a resize gesture dispatches a resize
  action. A tick whose item is no longer in the snapshot dispatches nothing.
\<close>

theorem resize_tick_without_dispatch_counterexample:
  "resize ex_resizing = Some ex_resize
   \<and> step True ex_props ex_resizing (ex_view_removed, MouseMove ex_pointer) = (ex_resizing, [])"
  by (simp add: ex_defs handler_defs)

text \<open>
  Claim C3 as amended: during a resize gesture, every pointer-move tick at which the
  container is mounted and the item is in the snapshot of that tick dispatches a resize
  action at once, with the size computed from the item's geometry in that snapshot and
  the pointer, and keeps no preview (the gesture state is unchanged); the pointer-up
  dispatches nothing and ends the gesture, and no pointer-move or pointer-up after it
  dispatches anything.
\<close>

theorem resize_commits_on_every_computed_tick:
  assumes "resize g = Some rs" "drag g = None"
  shows "(containerRef v = Some rect
            \<and> find_item (items (snapshot v)) (resize_id rs) = Some item \<longrightarrow>
          step fluid p g (v, MouseMove e) =
            (g, [Resize (resize_id rs)
                   (resize_width (tick_columns fluid p v) (tick_cell_width fluid p v rect)
                      (item_x item) (num_sub (clientX e) (rect_left rect)))
                   (resize_height (cellHeight p) (item_y item)
                      (num_sub (clientY e) (rect_top rect)))]))
       \<and> ((\<forall>x\<in>set evs. is_window_event (snd x)) \<longrightarrow>
            run fluid p g ((v', MouseUp) # evs) = (idle, []))"
proof (intro conjI impI)
  assume "containerRef v = Some rect
            \<and> find_item (items (snapshot v)) (resize_id rs) = Some item"
  then show "step fluid p g (v, MouseMove e) =
            (g, [Resize (resize_id rs)
                   (resize_width (tick_columns fluid p v) (tick_cell_width fluid p v rect)
                      (item_x item) (num_sub (clientX e) (rect_left rect)))
                   (resize_height (cellHeight p) (item_y item)
                      (num_sub (clientY e) (rect_top rect)))])"
    using step_resize_tick assms by blast
next
  assume evs: "\<forall>x\<in>set evs. is_window_event (snd x)"
  have "step fluid p g (v', MouseUp) = (idle, [])"
    using assms by (simp add: handleMoveEnd_def handleResizeEnd_def idle_def)
  then show "run fluid p g ((v', MouseUp) # evs) = (idle, [])"
    using run_idle_window_events [OF evs] by simp
qed

theorem resize_commits_on_every_computed_tick_witness:
  "step False ex_props ex_resizing (ex_view, MouseMove ex_pointer) =
     (ex_resizing, [Resize ''a'' (Fin 3) (Fin 3)])
   \<and> run False ex_props ex_resizing
       ((ex_view, MouseUp) # [(ex_view, MouseMove ex_pointer), (ex_view, MouseUp)]) = (idle, [])"
proof -
  have a: "resize ex_resizing = Some ex_resize" and b: "drag ex_resizing = None"
    by (simp_all add: ex_defs)
  have c: "containerRef ex_view = Some ex_rect
             \<and> find_item (items (snapshot ex_view)) (resize_id ex_resize) = Some ex_item"
    by (simp add: ex_defs find_item_def)
  have d: "\<forall>x\<in>set [(ex_view, MouseMove ex_pointer), (ex_view, MouseUp)]. is_window_event (snd x)"
    by simp
  have e: "resize_width (tick_columns False ex_props ex_view)
             (tick_cell_width False ex_props ex_view ex_rect) (item_x ex_item)
             (num_sub (clientX ex_pointer) (rect_left ex_rect)) = Fin 3"
    by (simp add: ex_defs handler_defs resize_width_def)
  have f: "resize_height (cellHeight ex_props) (item_y ex_item)
             (num_sub (clientY ex_pointer) (rect_top ex_rect)) = Fin 3"
    by (simp add: ex_defs handler_defs resize_height_def)
  have g: "resize_id ex_resize = ''a''"
    by (simp add: ex_defs)
  show ?thesis
    using resize_commits_on_every_computed_tick [OF a b, of ex_view ex_rect ex_item False
        ex_props ex_pointer "[(ex_view, MouseMove ex_pointer), (ex_view, MouseUp)]" ex_view]
      c d e f g
    by simp
qed

subsection \<open>C4: the range of the dispatched numbers\<close>


text \<open>
  A quotient by a small cell height overflows: the height, and in the same way the \<open>y\<close> of
  a move, can be \<open>+Infinity\<close> for finite inputs with a cell height other than zero.
\<close>

lemma resize_height_overflow:
  "resize_height (Fin (2 powi (- 1074))) (Fin 0) (Fin 250) = PosInf"
  by (simp add: resize_height_def pixelToGridH_def double_of_overflow)

text \<open>
  The two bounds on the width cannot both hold for an item that starts at or beyond the
  last column boundary: the clamp to \<open>columns - item.x\<close> is applied last and wins.
\<close>

lemma resize_width_zero_beyond_grid:
  "resize_width (Fin 4) (Fin 100) (Fin 4) (Fin 450) = Fin 0"
  by (simp add: resize_width_def pixelToGridW_def)

text \<open>The pieces of the amended claim.\<close>

lemma pixel_extent_not_NaN:
  "c \<noteq> 0 \<Longrightarrow>
     num_div (Math_max (Fin c) (num_sub (Fin q) (num_mul (Fin x) (Fin c)))) (Fin c) \<noteq> NaN"
  by (intro num_div_not_NaN Math_max_not_NaN num_sub_not_NaN) simp_all

lemma grid_size_ge_1: "z \<noteq> NaN \<Longrightarrow> num_le (Fin 1) (Math_max (Fin 1) (Math_round z))"
  by (intro Math_max_ge Math_round_not_NaN)

lemma resize_height_ge_1:
  "ch \<noteq> 0 \<Longrightarrow> num_le (Fin 1) (resize_height (Fin ch) (Fin y) (Fin py))"
  unfolding resize_height_def pixelToGridH_def
  by (intro grid_size_ge_1 pixel_extent_not_NaN)

lemma resize_width_in_range:
  assumes "cw \<noteq> 0" "is_double c" "0 \<le> x" "x \<le> c - 1"
  shows "\<exists>w. resize_width (Fin c) (Fin cw) (Fin x) (Fin px) = Fin w \<and> 1 \<le> w
             \<and> num_le (Fin w) (num_sub (Fin c) (Fin x))"
proof -
  obtain d where d: "double_of (c - x) = Fin d" "1 \<le> d"
    using double_of_between [of c 1 "c - x"] assms by auto
  have "num_le (Fin 1)
          (Math_max (Fin 1) (Math_round
             (num_div (Math_max (Fin cw) (num_sub (Fin px) (num_mul (Fin x) (Fin cw)))) (Fin cw))))"
    using assms(1) by (intro grid_size_ge_1 pixel_extent_not_NaN)
  from min_finite [OF d(2) this] show ?thesis
    by (auto simp: resize_width_def pixelToGridW_def d(1))
qed

lemma pixelToGridX_in_range:
  assumes "cw \<noteq> 0" "is_double c" "1 \<le> c"
  shows "\<exists>gx. pixelToGridX (Fin c) (Fin cw) (Fin px) = Fin gx \<and> 0 \<le> gx
              \<and> num_le (Fin gx) (num_sub (Fin c) (Fin 1))"
proof -
  obtain hi where hi: "double_of (c - 1) = Fin hi" "0 \<le> hi"
    using double_of_between [of c 0 "c - 1"] assms by auto
  have "Math_round (double_of (px / cw)) \<noteq> NaN" by (simp add: Math_round_not_NaN)
  from clamp_finite [OF hi(2) this] show ?thesis
    using assms(1) by (auto simp: pixelToGridX_Fin hi(1))
qed

lemma pixelToGridY_nonneg:
  "ch \<noteq> 0 \<Longrightarrow> num_le (Fin 0) (pixelToGridY (Fin ch) (Fin py))"
  by (simp add: pixelToGridY_Fin Math_max_ge Math_round_not_NaN)



subsection \<open>C5: range and monotonicity of pixelToGridX\<close>





subsection \<open>C6: grid to pixel and back\<close>

text \<open>
  Claim C6 says that every grid position survives the way to pixels and back. The column
  five of a grid of four columns comes back as the last column, three.
\<close>

theorem round_trip_clamped_counterexample:
  "pixelToGridX (Fin 4) (Fin 100) (num_mul (Fin 5) (Fin 100)) = Fin 3 \<and> Fin 3 \<noteq> Fin 5"
  by (simp add: pixelToGridX_def)

text \<open>A cell size of zero loses every position, and so does a product that overflows.\<close>

lemma round_trip_zero_cell:
  "pixelToGridX (Fin 4) (Fin 0) (num_mul (Fin 2) (Fin 0)) = NaN"
  "pixelToGridY (Fin 0) (num_mul (Fin 2) (Fin 0)) = NaN"
  by (simp_all add: pixelToGridX_def pixelToGridY_def)

lemma round_trip_overflow:
  "pixelToGridY (Fin (2 ^ 1023)) (num_mul (Fin 3) (Fin (2 ^ 1023))) = PosInf"
  by (simp add: pixelToGridY_def double_of_overflow signed_inf_def)

text \<open>
  Claim C6 as amended: for cell sizes that are doubles other than zero and every grid
  position \<open>(gx, gy)\<close> of integers with \<open>0 <= gx <= columns - 1\<close>, \<open>0 <= gy\<close> and both at
  most \<open>2^50\<close>, such that the products \<open>gx * cellWidth\<close> and \<open>gy * cellHeight\<close> do not
  overflow, converting \<open>gx * cellWidth\<close> with \<open>pixelToGridX\<close> and \<open>gy * cellHeight\<close> with
  \<open>pixelToGridY\<close> yields exactly \<open>(gx, gy)\<close>.
\<close>

theorem grid_pixel_round_trip:
  assumes "is_double cw" "cw \<noteq> 0" "is_double ch" "ch \<noteq> 0"
    and "0 \<le> gx" "gx \<le> 2 ^ 50" "of_int gx \<le> c - 1" "0 \<le> gy" "gy \<le> 2 ^ 50"
    and "is_finite (num_mul (Fin (of_int gx)) (Fin cw))"
        "is_finite (num_mul (Fin (of_int gy)) (Fin ch))"
  shows "pixelToGridX (Fin c) (Fin cw) (num_mul (Fin (of_int gx)) (Fin cw)) = Fin (of_int gx)
       \<and> pixelToGridY (Fin ch) (num_mul (Fin (of_int gy)) (Fin ch)) = Fin (of_int gy)"
proof
  obtain p where p: "num_mul (Fin (of_int gx)) (Fin cw) = Fin p"
    using assms(10) by (cases "num_mul (Fin (of_int gx)) (Fin cw)") simp_all
  have r: "Math_round (num_div (Fin p) (Fin cw)) = Fin (of_int gx)"
    using assms(1,2,5,6) p by (rule round_trip_core)
  have "\<bar>gx\<bar> < 2 ^ 53" using assms(5,6) by simp
  then have "double_of (of_int gx) = Fin (of_int gx)" by (rule double_of_int)
  moreover have "num_le (double_of (of_int gx)) (double_of (c - 1))"
    using assms(7) by (rule double_of_mono)
  ultimately have "Math_min (num_sub (Fin c) (Fin 1)) (Fin (of_int gx)) = Fin (of_int gx)"
    by (simp add: Math_min_upper)
  then show "pixelToGridX (Fin c) (Fin cw) (num_mul (Fin (of_int gx)) (Fin cw)) = Fin (of_int gx)"
    using assms(5) by (simp only: pixelToGridX_def p r) simp
next
  obtain p where p: "num_mul (Fin (of_int gy)) (Fin ch) = Fin p"
    using assms(11) by (cases "num_mul (Fin (of_int gy)) (Fin ch)") simp_all
  have r: "Math_round (num_div (Fin p) (Fin ch)) = Fin (of_int gy)"
    using assms(3,4,8,9) p by (rule round_trip_core)
  show "pixelToGridY (Fin ch) (num_mul (Fin (of_int gy)) (Fin ch)) = Fin (of_int gy)"
    using assms(8) by (simp only: pixelToGridY_def p r) simp
qed


theorem grid_pixel_round_trip_witness:
  "pixelToGridX (Fin 4) (Fin 100) (num_mul (Fin (of_int 3)) (Fin 100)) = Fin (of_int 3)
   \<and> pixelToGridY (Fin 50) (num_mul (Fin (of_int 7)) (Fin 50)) = Fin (of_int 7)"
proof -
  have "is_double 100" "(100::real) \<noteq> 0" "is_double 50" "(50::real) \<noteq> 0"
    "(0::int) \<le> 3" "(3::int) \<le> 2 ^ 50" "of_int (3::int) \<le> (4::real) - 1"
    "(0::int) \<le> 7" "(7::int) \<le> 2 ^ 50"
    "is_finite (num_mul (Fin (of_int 3)) (Fin 100))"
    "is_finite (num_mul (Fin (of_int 7)) (Fin 50))"
    by (simp_all add: is_double_def)
  then show ?thesis
    by (rule grid_pixel_round_trip)
qed

subsection \<open>C7: scenario B\<close>

text \<open>
  Claim C7: for an item at grid \<open>(0,0)\<close> with \<open>w = 2\<close>, \<open>h = 2\<close>, four columns and cells of
  \<open>100 \<times> 100\<close> pixels, a resize pointer-move tick of the fixed grid with the pointer at
  pixel \<open>(250,250)\<close> relative to the container dispatches exactly the resize action with
  the id of the gesture, \<open>w = 3\<close> and \<open>h = 3\<close>.
\<close>

theorem scenario_B_resize:
  assumes "resize g = Some rs" "containerRef v = Some rect"
    and "find_item (items (snapshot v)) (resize_id rs) = Some item"
    and "item_x item = Fin 0" "item_y item = Fin 0" "item_w item = Fin 2" "item_h item = Fin 2"
    and "columns (snapshot v) = Fin 4" "cellWidth p = Fin 100" "cellHeight p = Fin 100"
    and "num_sub (clientX e) (rect_left rect) = Fin 250"
        "num_sub (clientY e) (rect_top rect) = Fin 250"
  shows "snd (step False p g (v, MouseMove e)) = [Resize (resize_id rs) (Fin 3) (Fin 3)]"
proof -
  have "handleResize_fixed p v e (Some rs) =
          [Resize (resize_id rs) (resize_width (Fin 4) (Fin 100) (Fin 0) (Fin 250))
             (resize_height (Fin 100) (Fin 0) (Fin 250))]"
    using assms handleResize_fixed_Some [OF assms(2,3), of p e]
    by (simp add: tick_columns_def tick_cell_width_def)
  moreover have "resize_width (Fin 4) (Fin 100) (Fin 0) (Fin 250) = Fin 3"
    by (simp add: resize_width_def pixelToGridW_def num_sub_def)
  moreover have "resize_height (Fin 100) (Fin 0) (Fin 250) = Fin 3"
    by (simp add: resize_height_def pixelToGridH_def num_sub_def)
  ultimately show ?thesis
    using assms(1) by simp
qed

theorem scenario_B_resize_witness:
  "snd (step False ex_props ex_resizing (ex_view, MouseMove ex_pointer)) =
     [Resize ''a'' (Fin 3) (Fin 3)]"
proof -
  have "resize ex_resizing = Some ex_resize" "containerRef ex_view = Some ex_rect"
    "find_item (items (snapshot ex_view)) (resize_id ex_resize) = Some ex_item"
    "item_x ex_item = Fin 0" "item_y ex_item = Fin 0" "item_w ex_item = Fin 2"
    "item_h ex_item = Fin 2" "columns (snapshot ex_view) = Fin 4" "cellWidth ex_props = Fin 100"
    "cellHeight ex_props = Fin 100"
    "num_sub (clientX ex_pointer) (rect_left ex_rect) = Fin 250"
    "num_sub (clientY ex_pointer) (rect_top ex_rect) = Fin 250"
    by (simp_all add: ex_defs find_item_def num_sub_def)
  then have "snd (step False ex_props ex_resizing (ex_view, MouseMove ex_pointer)) =
               [Resize (resize_id ex_resize) (Fin 3) (Fin 3)]"
    by (rule scenario_B_resize)
  then show ?thesis
    by (simp add: ex_resize_def)
qed

text \<open>The fluid grid gives the same answer when the container is 400 pixels wide.\<close>

lemma scenario_B_resize_fluid:
  "snd (step True ex_props ex_resizing (ex_view, MouseMove ex_pointer)) =
     [Resize ''a'' (Fin 3) (Fin 3)]"
  by (simp add: ex_defs handler_defs)

subsection \<open>C8: skipped resize ticks\<close>

text \<open>
  Claim C8: a pointer-move tick of a resize gesture whose item id is not in the current
  snapshot, or that fires while the container is not mounted, dispatches nothing and
  leaves the gesture state unchanged, in the fluid and in the fixed grid.
\<close>

theorem resize_tick_skipped:
  assumes "resize g = Some rs" "drag g = None"
    "containerRef v = None \<or> find_item (items (snapshot v)) (resize_id rs) = None"
  shows "step fluid p g (v, MouseMove e) = (g, [])"
  using assms
  by (cases fluid)
     (auto simp: handleMove_def handleMove_fixed_def handleResize_def handleResize_fixed_def
           Let_def split: option.splits)

theorem resize_tick_skipped_witness:
  "resize ex_resizing = Some ex_resize \<and> drag ex_resizing = None
   \<and> containerRef ex_view_unmounted = None
   \<and> step True ex_props ex_resizing (ex_view_unmounted, MouseMove ex_pointer) = (ex_resizing, [])"
proof -
  have a: "resize ex_resizing = Some ex_resize" and b: "drag ex_resizing = None"
    and c: "containerRef ex_view_unmounted = None"
    by (simp_all add: ex_defs)
  from c have d: "containerRef ex_view_unmounted = None
      \<or> find_item (items (snapshot ex_view_unmounted)) (resize_id ex_resize) = None"
    by simp
  show ?thesis
    using a b c resize_tick_skipped [OF a b d] by blast
qed

subsection \<open>C9: a swapped store\<close>

text \<open>
  The hook of \<open>src/useLayoutState.ts\<close> re-reads the new store in the effect of the render
  that first sees it: the render after that returns the new store's state.
\<close>

lemma useLayoutState_resync:
  assumes "hook_store hk \<noteq> store'"
  shows "fst (useLayoutState getState store' (snd (useLayoutState getState store' (Some hk))))
           = getState store'"
  using assms by simp

lemma useLayoutState_first_use:
  "fst (useLayoutState getState store None) = getState store"
  by simp

text \<open>A pass of the second hook never writes the state cell of a mounted instance.\<close>

lemma useLayoutState_part000_keeps_state:
  "\<exists>hk'. snd (useLayoutState_part000 getState store (Some hk)) = Some hk'
          \<and> hook_state hk' = hook_state hk"
  by simp

text \<open>
  Claim C9: when the store passed to \<open>useLayoutState\<close> changes to another store, the
  returned snapshot is re-read from the new store's \<open>getState()\<close> and the previous store's
  snapshot does not outlive one synchronisation. The hook of the second source file,
  mounted on store 0 and then rendered twice with store 1, still returns the state of
  store 0, which differs from that of store 1; the hook of \<open>src/useLayoutState.ts\<close>
  returns the state of store 1 there.
\<close>

theorem useLayoutState_part000_stale_after_swap:
  "fst (useLayoutState_part000 ex_getState 1
          (snd (useLayoutState_part000 ex_getState 1
             (snd (useLayoutState_part000 ex_getState 0 None))))) = ex_getState 0
   \<and> ex_getState 0 \<noteq> ex_getState 1
   \<and> fst (useLayoutState ex_getState 1
          (snd (useLayoutState ex_getState 1
             (snd (useLayoutState ex_getState 0 None))))) = ex_getState 1"
  by (simp add: ex_getState_def)

subsection \<open>C10: a drag without a pointer-move\<close>

text \<open>
  Claim C10: for every drag gesture in which the pointer-up follows the pointer-down with
  no pointer-move between them, the dispatched move action carries exactly the item's
  \<open>x\<close> and \<open>y\<close> as captured at the pointer-down, unclamped.
\<close>

theorem drag_without_move_commits_start:
  assumes "draggable p" "button e = 0"
  shows "run fluid p idle [(v0, PanelMouseDown e item), (v1, MouseUp)] =
           (idle, [Move (item_id item) (item_x item) (item_y item)])"
  using assms by (simp add: idle_def onPanelMouseDown_def handleMoveEnd_def)

theorem drag_without_move_commits_start_witness:
  "draggable ex_props \<and> button ex_pointer = 0
   \<and> run False ex_props idle [(ex_view_A, PanelMouseDown ex_pointer ex_item_A), (ex_view_A, MouseUp)]
       = (idle, [Move (item_id ex_item_A) (item_x ex_item_A) (item_y ex_item_A)])"
proof -
  have a: "draggable ex_props" and b: "button ex_pointer = 0"
    by (simp_all add: ex_defs)
  show ?thesis
    using a b drag_without_move_commits_start [OF a b] by blast
qed

text \<open>The captured position is dispatched as it is even when it lies outside the grid.\<close>

lemma drag_without_move_unclamped:
  "run True ex_props idle
     [(ex_view, PanelMouseDown ex_pointer (ex_item\<lparr>item_x := Fin 9\<rparr>)), (ex_view, MouseUp)]
   = (idle, [Move ''a'' (Fin 9) (Fin 0)])"
  by (simp add: ex_defs handler_defs)

end
